theory Spec2Isabelle
  imports Main "HOL-Library.Multiset"
begin

section \<open>Strings, sets and dictionaries of the Python source\<close>

text \<open>
  A Python \<open>str\<close> is a sequence of Unicode code points; it is modelled as the list of
  those code points, so that \<open>strip\<close> sees exactly the characters Python calls
  whitespace. \<open>py\<close> writes an ASCII literal.
\<close>

type_synonym pystr = "nat list"

abbreviation py :: "string \<Rightarrow> pystr" where
  "py s \<equiv> map of_char s"

text \<open>\<open>str.isspace\<close> on one code point: the code points Python treats as whitespace.\<close>

definition isspace :: "nat \<Rightarrow> bool" where
  "isspace c \<longleftrightarrow>
     c \<in> set [9, 10, 11, 12, 13, 28, 29, 30, 31, 32, 133, 160, 5760,
              8232, 8233, 8239, 8287, 12288]
     \<or> (8192 \<le> c \<and> c \<le> 8202)"

text \<open>\<open>s.strip()\<close>: leading and trailing whitespace removed.\<close>

definition strip :: "pystr \<Rightarrow> pystr" where
  "strip s = rev (dropWhile isspace (rev (dropWhile isspace s)))"

text \<open>The separator \<open>'|'\<close> and the comment marker \<open>'#'\<close>.\<close>

definition SEP :: nat where
  "SEP = 124"

definition HASH :: nat where
  "HASH = 35"

text \<open>\<open>line.startswith('#')\<close>.\<close>

definition startswith_hash :: "pystr \<Rightarrow> bool" where
  "startswith_hash line = (case line of [] \<Rightarrow> False | c # _ \<Rightarrow> c = HASH)"

text \<open>
  \<open>line.split('|', 1)\<close> on a line that contains the separator: the text before the first
  separator and the text after it.
\<close>

definition split_once :: "pystr \<Rightarrow> pystr \<times> pystr" where
  "split_once line =
     (takeWhile (\<lambda>c. c \<noteq> SEP) line, tl (dropWhile (\<lambda>c. c \<noteq> SEP) line))"

text \<open>
  A Python \<open>set\<close> is modelled as a duplicate-free list of its elements: membership is
  membership in the list, \<open>add\<close> and \<open>discard\<close> are below. Python fixes no iteration
  order, so wherever the source iterates over a set the model takes a schedule that
  selects the order (see \<open>pick\<close>). A \<open>dict\<close> is an association list in insertion order;
  assignment \<open>d[k] = v\<close> is \<open>AList.update\<close>-like: an existing key keeps its place.
\<close>

type_synonym 'a pyset = "'a list"

definition set_add :: "'a \<Rightarrow> 'a pyset \<Rightarrow> 'a pyset" where
  "set_add x s = (if x \<in> set s then s else s @ [x])"

definition set_discard :: "'a \<Rightarrow> 'a pyset \<Rightarrow> 'a pyset" where
  "set_discard x s = filter (\<lambda>y. y \<noteq> x) s"

text \<open>\<open>set(xs)\<close> of a list: its distinct elements.\<close>

definition set_of_list :: "'a list \<Rightarrow> 'a pyset" where
  "set_of_list xs = remdups xs"

type_synonym ('k, 'v) pydict = "('k \<times> 'v) list"

fun dict_set :: "'k \<Rightarrow> 'v \<Rightarrow> ('k, 'v) pydict \<Rightarrow> ('k, 'v) pydict" where
  "dict_set k v [] = [(k, v)]"
| "dict_set k v (p # ps) = (if fst p = k then (k, v) # ps else p # dict_set k v ps)"

text \<open>
  An order chosen by a schedule: at each step the schedule's number selects which of the
  remaining elements comes next. Every order of the elements is produced by some schedule;
  when the schedule runs out the remaining elements follow as they stand.
\<close>

fun pick :: "nat list \<Rightarrow> 'a list \<Rightarrow> 'a list" where
  "pick [] xs = xs"
| "pick (n # ns) xs =
     (if xs = [] then []
      else let i = n mod length xs
           in xs ! i # pick ns (take i xs @ drop (Suc i) xs))"

section \<open>Errors\<close>

text \<open>
  What ends a run early: \<open>sys.exit(1)\<close> when the word list is not found, the
  \<open>JSONDecodeError\<close> that \<open>json.load\<close> raises on a file that is not a complete JSON
  document (\<open>load_progress\<close> catches \<open>FileNotFoundError\<close> only), and the \<open>ValueError\<close> of
  \<open>range\<close> with step zero.
\<close>

datatype error = SystemExit int | JSONDecodeError | ValueError

text \<open>A call that may raise: what it returned, or that it raised.\<close>

datatype 'a outcome = Raised | Returned 'a

section \<open>Reading the word list\<close>

text \<open>
  The first loop of \<open>load_word_list\<close>: every line is stripped; empty lines and comment
  lines are skipped; a line with a separator is split at the first one and both parts are
  stripped; a line without one is the word, with empty flags.
\<close>

definition parse_line :: "pystr \<Rightarrow> (pystr \<times> pystr) list" where
  "parse_line raw =
     (let line = strip raw in
      if line \<noteq> [] \<and> \<not> startswith_hash line then
        (if SEP \<in> set line then
           (let (word, flags) = split_once line in [(strip word, strip flags)])
         else [(strip line, [])])
      else [])"

definition read_pairs :: "pystr list \<Rightarrow> (pystr \<times> pystr) list" where
  "read_pairs lines = concat (map parse_line lines)"

text \<open>The second loop: a pair is kept when its word has not been seen.\<close>

fun unique_loop ::
  "pystr pyset \<Rightarrow> (pystr \<times> pystr) list \<Rightarrow> (pystr \<times> pystr) list \<Rightarrow> (pystr \<times> pystr) list"
where
  "unique_loop seen unique_pairs [] = unique_pairs"
| "unique_loop seen unique_pairs ((word, flags) # rest) =
     (if word \<notin> set seen
      then unique_loop (set_add word seen) (unique_pairs @ [(word, flags)]) rest
      else unique_loop seen unique_pairs rest)"

text \<open>
  \<open>load_word_list\<close>: the file is given as the lines that iterating over it yields, or
  \<open>None\<close> when it does not exist (the source then logs and calls \<open>sys.exit(1)\<close>).
\<close>

definition load_word_list :: "pystr list option \<Rightarrow> error + (pystr \<times> pystr) list" where
  "load_word_list file =
     (case file of
        None \<Rightarrow> Inl (SystemExit 1)
      | Some lines \<Rightarrow> Inr (unique_loop [] [] (read_pairs lines)))"

section \<open>The builder and the progress file\<close>

text \<open>
  The fields of \<open>DictionaryBuilder\<close> (\<open>translations_dict\<close> is the source's
  \<open>self.translations\<close>). The Google builder has no \<open>examples\<close> field (it is
  commented out in the source); its \<open>examples\<close> stays empty throughout.
\<close>

record builder =
  translations_dict :: "(pystr, pystr) pydict"
  examples :: "(pystr, pystr list) pydict"
  processed_words :: "pystr pyset"
  problematic_words :: "pystr pyset"

text \<open>\<open>__init__\<close>.\<close>

definition init_builder :: builder where
  "init_builder =
     \<lparr>translations_dict = [], examples = [], processed_words = [], problematic_words = []\<rparr>"

text \<open>
  The JSON object of \<open>progress.json\<close>. Every field may be absent from the object
  (\<open>None\<close>); the two sets are stored as JSON arrays.
\<close>

record progress_data =
  f_translations :: "(pystr, pystr) pydict option"
  f_examples :: "(pystr, pystr list) pydict option"
  f_processed_words :: "pystr list option"
  f_problematic_words :: "pystr list option"
  f_results_count :: "nat option"

text \<open>
  What is on disk under the name \<open>progress.json\<close>: no file; a file that is not a complete
  JSON document (what \<open>open('progress.json', 'w')\<close> leaves from the moment it truncates
  the file until \<open>json.dump\<close> has written the last character: a proper prefix of the
  document, on which \<open>json.load\<close> raises); or a complete document.
\<close>

datatype progress_file = Missing | Incomplete | Snapshot progress_data

text \<open>The \<open>progress_data\<close> dictionary that \<open>save_progress\<close> builds, in either program.\<close>

definition progress_data_glosbe :: "builder \<Rightarrow> nat \<Rightarrow> progress_data" where
  "progress_data_glosbe b results_count =
     \<lparr>f_translations = Some (translations_dict b),
      f_examples = Some (examples b),
      f_processed_words = Some (processed_words b),
      f_problematic_words = Some (problematic_words b),
      f_results_count = Some results_count\<rparr>"

definition progress_data_google :: "builder \<Rightarrow> nat \<Rightarrow> progress_data" where
  "progress_data_google b results_count =
     \<lparr>f_translations = Some (translations_dict b),
      f_examples = None,
      f_processed_words = Some (processed_words b),
      f_problematic_words = Some (problematic_words b),
      f_results_count = Some results_count\<rparr>"

text \<open>
  The file as a process killed during \<open>save_progress\<close> leaves it, by how far the save
  got: \<open>0\<close>, the file has not been opened yet and holds what it held; \<open>1\<close>, the file has
  been opened for writing, which truncates it, and the document is not complete;
  \<open>2\<close> or more, \<open>json.dump\<close> has finished.
\<close>

definition disk_during_save :: "nat \<Rightarrow> progress_file \<Rightarrow> progress_data \<Rightarrow> progress_file" where
  "disk_during_save k old d =
     (if k = 0 then old else if k = 1 then Incomplete else Snapshot d)"

text \<open>
  \<open>load_progress\<close>: a missing file leaves the builder as it is; a missing field takes its
  default. Only \<open>FileNotFoundError\<close> is caught.
\<close>

definition load_progress_glosbe :: "progress_file \<Rightarrow> builder \<Rightarrow> error + builder" where
  "load_progress_glosbe file b =
     (case file of
        Missing \<Rightarrow> Inr b
      | Incomplete \<Rightarrow> Inl JSONDecodeError
      | Snapshot data \<Rightarrow>
          Inr (b\<lparr>translations_dict := (case f_translations data of None \<Rightarrow> [] | Some t \<Rightarrow> t),
                 examples := (case f_examples data of None \<Rightarrow> [] | Some e \<Rightarrow> e),
                 processed_words :=
                   set_of_list (case f_processed_words data of None \<Rightarrow> [] | Some l \<Rightarrow> l),
                 problematic_words :=
                   set_of_list (case f_problematic_words data of None \<Rightarrow> [] | Some l \<Rightarrow> l)\<rparr>))"

definition load_progress_google :: "progress_file \<Rightarrow> builder \<Rightarrow> error + builder" where
  "load_progress_google file b =
     (case file of
        Missing \<Rightarrow> Inr b
      | Incomplete \<Rightarrow> Inl JSONDecodeError
      | Snapshot data \<Rightarrow>
          Inr (b\<lparr>translations_dict := (case f_translations data of None \<Rightarrow> [] | Some t \<Rightarrow> t),
                 processed_words :=
                   set_of_list (case f_processed_words data of None \<Rightarrow> [] | Some l \<Rightarrow> l),
                 problematic_words :=
                   set_of_list (case f_problematic_words data of None \<Rightarrow> [] | Some l \<Rightarrow> l)\<rparr>))"

section \<open>The run: state, events, batches\<close>

text \<open>
  What a run does that can be observed, in program order: a word is submitted to the
  worker pool, the progress file is written, the problematic-words report is written, the
  dictionary file is written. \<open>'r\<close> is what the results dictionary holds per word.
\<close>

datatype 'r event =
    Dispatch pystr pystr
  | SaveProgress progress_data
  | SaveProblematic "pystr pyset"
  | SaveYomichan "(pystr, 'r) pydict"

record 'r world =
  bld :: builder
  disk :: progress_file
  trace :: "'r event list"

text \<open>Truthiness of an optional string: \<open>None\<close> and \<open>''\<close> are false.\<close>

definition truthy :: "pystr option \<Rightarrow> bool" where
  "truthy t = (case t of None \<Rightarrow> False | Some s \<Rightarrow> s \<noteq> [])"

text \<open>
  \<open>save_progress\<close>: the whole state is written over \<open>progress.json\<close>; the save has run
  to its end. \<open>mk\<close> is the program's \<open>progress_data\<close> dictionary (\<open>progress_data_glosbe\<close>
  or \<open>progress_data_google\<close>); the rest of the function is the same in both programs.
\<close>

definition save_progress ::
  "(builder \<Rightarrow> nat \<Rightarrow> progress_data) \<Rightarrow> 'r world \<Rightarrow> (pystr, 'r) pydict \<Rightarrow> 'r world" where
  "save_progress mk w results =
     (let progress_data = mk (bld w) (length results)
      in w\<lparr>disk := disk_during_save 2 (disk w) progress_data,
           trace := trace w @ [SaveProgress progress_data]\<rparr>)"

section \<open>Processing one word\<close>

text \<open>
  The client's calls are outside the program: \<open>get_translation\<close> is a function from the
  word to what the call returned (a translation or \<open>None\<close>) or to the fact that it raised,
  and likewise \<open>get_similar_phrases\<close>.

  Glosbe's \<open>process_word\<close> lets an exception of the client through, and adds the word to
  \<open>problematic_words\<close> itself when there is no valid translation.
\<close>

definition process_word_glosbe ::
  "(pystr \<Rightarrow> pystr option outcome) \<Rightarrow> (pystr \<Rightarrow> pystr list outcome) \<Rightarrow>
   builder \<Rightarrow> pystr \<Rightarrow> builder \<times> (pystr option \<times> pystr list) outcome"
where
  "process_word_glosbe get_translation get_similar_phrases b spanish_word =
     (case get_translation spanish_word of
        Raised \<Rightarrow> (b, Raised)
      | Returned translation \<Rightarrow>
          (case get_similar_phrases spanish_word of
             Raised \<Rightarrow> (b, Raised)
           | Returned exs \<Rightarrow>
               (if \<not> truthy translation \<or> length (strip (the translation)) = 0
                then (b\<lparr>problematic_words := set_add spanish_word (problematic_words b)\<rparr>,
                      Returned (None, exs))
                else (b, Returned (Some (strip (the translation)), exs)))))"

text \<open>Google's \<open>process_word\<close> catches every exception and returns \<open>None\<close>.\<close>

definition process_word_google ::
  "(pystr \<Rightarrow> pystr option outcome) \<Rightarrow> pystr \<Rightarrow> pystr option outcome"
where
  "process_word_google get_translation spanish_word =
     (case get_translation spanish_word of
        Raised \<Rightarrow> Returned None
      | Returned translation \<Rightarrow>
          (if \<not> truthy translation \<or> length (strip (the translation)) = 0
           then Returned None
           else Returned (Some (strip (the translation)))))"

text \<open>
  The body of the \<open>as_completed\<close> loop for one finished future, together with the run of
  \<open>process_word\<close> that the future stands for. In Glosbe's program the worker adds to
  \<open>problematic_words\<close> while the loop runs; the loop itself only adds to that set, so the
  state after the batch is the same whichever way the two interleave.
\<close>

definition complete_glosbe ::
  "(pystr \<Rightarrow> pystr option outcome) \<Rightarrow> (pystr \<Rightarrow> pystr list outcome) \<Rightarrow>
   builder \<times> (pystr, pystr \<times> pystr \<times> pystr list) pydict \<Rightarrow> pystr \<times> pystr \<Rightarrow>
   builder \<times> (pystr, pystr \<times> pystr \<times> pystr list) pydict"
where
  "complete_glosbe get_translation get_similar_phrases st item =
     (let (b0, results) = st;
          (word, flags) = item;
          (b, res) = process_word_glosbe get_translation get_similar_phrases b0 word;
          (b1, results1) =
            (case res of
               Returned (translation, exs) \<Rightarrow>
                 (if truthy translation
                  then (b\<lparr>translations_dict := dict_set word (the translation) (translations_dict b),
                          examples := dict_set word exs (examples b)\<rparr>,
                        dict_set word (the translation, flags, exs) results)
                  else (b, results))
             | Raised \<Rightarrow>
                 (b\<lparr>problematic_words := set_add word (problematic_words b)\<rparr>, results))
      in (b1\<lparr>processed_words := set_add word (processed_words b1)\<rparr>, results1))"

definition complete_google ::
  "(pystr \<Rightarrow> pystr option outcome) \<Rightarrow>
   builder \<times> (pystr, pystr \<times> pystr) pydict \<Rightarrow> pystr \<times> pystr \<Rightarrow>
   builder \<times> (pystr, pystr \<times> pystr) pydict"
where
  "complete_google get_translation st item =
     (let (b, results) = st;
          (word, flags) = item;
          (b1, results1) =
            (case process_word_google get_translation word of
               Returned translation \<Rightarrow>
                 (if truthy translation
                  then (b\<lparr>translations_dict := dict_set word (the translation) (translations_dict b),
                          problematic_words := set_discard word (problematic_words b)\<rparr>,
                        dict_set word (the translation, flags) results)
                  else (b\<lparr>problematic_words := set_add word (problematic_words b)\<rparr>, results))
             | Raised \<Rightarrow>
                 (b\<lparr>problematic_words := set_add word (problematic_words b)\<rparr>, results))
      in (b1\<lparr>processed_words := set_add word (processed_words b1)\<rparr>, results1))"

section \<open>Batches\<close>

text \<open>
  One iteration of the loop of \<open>process_words\<close>, which is the same text in both programs
  up to the body of the \<open>as_completed\<close> loop (\<open>complete\<close>) and the dictionary saved
  (\<open>mk\<close>): the words of the batch that are not yet processed are submitted in order,
  their futures complete in the order the schedule selects, and when the pool has been
  joined the progress is saved.
\<close>

definition run_batch ::
  "(builder \<times> (pystr, 'r) pydict \<Rightarrow> pystr \<times> pystr \<Rightarrow> builder \<times> (pystr, 'r) pydict) \<Rightarrow>
   (builder \<Rightarrow> nat \<Rightarrow> progress_data) \<Rightarrow> nat list \<Rightarrow> (pystr \<times> pystr) list \<Rightarrow>
   'r world \<times> (pystr, 'r) pydict \<Rightarrow> 'r world \<times> (pystr, 'r) pydict"
where
  "run_batch complete mk sched batch st =
     (let (w, results) = st;
          words_to_process = filter (\<lambda>(word, flags). word \<notin> set (processed_words (bld w))) batch;
          (b, results1) =
            (if words_to_process \<noteq> []
             then foldl complete (bld w, results) (pick sched words_to_process)
             else (bld w, results));
          w1 = w\<lparr>bld := b,
                 trace := trace w @ map (\<lambda>(word, flags). Dispatch word flags) words_to_process\<rparr>
      in (save_progress mk w1 results1, results1))"

text \<open>
  The loop \<open>for i in range(0, len(word_flag_pairs), batch_size)\<close> for a positive
  \<open>batch_size\<close>: the batch is the next \<open>batch_size\<close> pairs, and the loop goes on with the
  pairs after them. \<open>scheds\<close> gives each batch its completion order; \<open>step\<close> is the
  iteration (\<open>run_batch\<close>).
\<close>

function batches_loop ::
  "(nat list \<Rightarrow> (pystr \<times> pystr) list \<Rightarrow> 's \<Rightarrow> 's) \<Rightarrow> nat \<Rightarrow> nat list list \<Rightarrow>
   (pystr \<times> pystr) list \<Rightarrow> 's \<Rightarrow> 's"
where
  "batches_loop step batch_size scheds word_flag_pairs st =
     (if word_flag_pairs = [] \<or> batch_size = 0 then st
      else batches_loop step batch_size (tl scheds) (drop batch_size word_flag_pairs)
             (step (case scheds of [] \<Rightarrow> [] | s # _ \<Rightarrow> s) (take batch_size word_flag_pairs) st))"
  by pat_completeness auto
termination
  by (relation "measure (\<lambda>(step, batch_size, scheds, word_flag_pairs, st). length word_flag_pairs)")
    auto

text \<open>
  \<open>process_words\<close>. \<open>range\<close> raises \<open>ValueError\<close> for a step of zero and is empty for a
  negative one. \<open>max_workers\<close> bounds how many words are in flight at once and nothing
  else; it is positive at every call (\<open>main\<close> passes 1 in Glosbe's program and leaves the
  default 30 in Google's), and is left out.
\<close>

definition process_words_glosbe ::
  "(pystr \<Rightarrow> pystr option outcome) \<Rightarrow> (pystr \<Rightarrow> pystr list outcome) \<Rightarrow> nat list list \<Rightarrow>
   (pystr \<times> pystr) list \<Rightarrow> int \<Rightarrow> (pystr \<times> pystr \<times> pystr list) world \<Rightarrow>
   error + (pystr \<times> pystr \<times> pystr list) world \<times> (pystr, pystr \<times> pystr \<times> pystr list) pydict"
where
  "process_words_glosbe get_translation get_similar_phrases scheds word_flag_pairs batch_size w =
     (if batch_size = 0 then Inl ValueError
      else if batch_size < 0 then Inr (w, [])
      else Inr (batches_loop
                  (run_batch (complete_glosbe get_translation get_similar_phrases)
                     progress_data_glosbe)
                  (nat batch_size) scheds word_flag_pairs (w, [])))"

definition process_words_google ::
  "(pystr \<Rightarrow> pystr option outcome) \<Rightarrow> nat list list \<Rightarrow>
   (pystr \<times> pystr) list \<Rightarrow> int \<Rightarrow> (pystr \<times> pystr) world \<Rightarrow>
   error + (pystr \<times> pystr) world \<times> (pystr, pystr \<times> pystr) pydict"
where
  "process_words_google get_translation scheds word_flag_pairs batch_size w =
     (if batch_size = 0 then Inl ValueError
      else if batch_size < 0 then Inr (w, [])
      else Inr (batches_loop
                  (run_batch (complete_google get_translation) progress_data_google)
                  (nat batch_size) scheds word_flag_pairs (w, [])))"

section \<open>The two programs\<close>

text \<open>\<open>k in d\<close> and \<open>d.get(k, dflt)\<close> on a dictionary.\<close>

definition dict_contains :: "'k \<Rightarrow> ('k, 'v) pydict \<Rightarrow> bool" where
  "dict_contains k d \<longleftrightarrow> k \<in> set (map fst d)"

definition dict_get :: "('k, 'v) pydict \<Rightarrow> 'k \<Rightarrow> 'v \<Rightarrow> 'v" where
  "dict_get d k dflt = (case map_of d k of None \<Rightarrow> dflt | Some v \<Rightarrow> v)"

text \<open>
  \<open>main\<close> of \<open>glosbe_dictionary_builder.py\<close>, from the word-list file and the progress
  file it finds. The report and the dictionary are written twice: the source repeats the
  two calls.
\<close>

definition main_glosbe ::
  "(pystr \<Rightarrow> pystr option outcome) \<Rightarrow> (pystr \<Rightarrow> pystr list outcome) \<Rightarrow> nat list list \<Rightarrow>
   pystr list option \<Rightarrow> progress_file \<Rightarrow>
   error + (pystr \<times> pystr \<times> pystr list) world \<times> (pystr, pystr \<times> pystr \<times> pystr list) pydict"
where
  "main_glosbe get_translation get_similar_phrases scheds word_list_file progress_json =
     (case load_progress_glosbe progress_json init_builder of
        Inl e \<Rightarrow> Inl e
      | Inr b \<Rightarrow>
          (case load_word_list word_list_file of
             Inl e \<Rightarrow> Inl e
           | Inr word_flag_pairs \<Rightarrow>
               (let words_to_process =
                      filter (\<lambda>(word, flags). word \<notin> set (processed_words b)) word_flag_pairs;
                    w0 = \<lparr>bld = b, disk = progress_json, trace = []\<rparr>
                in case (if words_to_process = [] then Inr (w0, [])
                         else process_words_glosbe get_translation get_similar_phrases scheds
                                words_to_process 25 w0) of
                     Inl e \<Rightarrow> Inl e
                   | Inr (w, results) \<Rightarrow>
                       Inr (w\<lparr>trace := trace w @
                                [SaveProblematic (problematic_words (bld w)),
                                 SaveYomichan results,
                                 SaveProblematic (problematic_words (bld w)),
                                 SaveYomichan results]\<rparr>,
                            results))))"

text \<open>
  The work list of \<open>main\<close> in \<open>google_translate_dictionary_builder.py\<close>: the lookup
  dictionary \<open>word_to_flags\<close>, the problematic words of earlier runs that are in it, and
  the words neither processed nor problematic. \<open>prob_sched\<close> selects the order in which
  the set \<open>builder.problematic_words\<close> is iterated.
\<close>

definition word_to_flags :: "(pystr \<times> pystr) list \<Rightarrow> (pystr, pystr) pydict" where
  "word_to_flags word_flag_pairs =
     foldl (\<lambda>d (word, flags). dict_set word flags d) [] word_flag_pairs"

definition problematic_to_retry ::
  "nat list \<Rightarrow> builder \<Rightarrow> (pystr \<times> pystr) list \<Rightarrow> (pystr \<times> pystr) list" where
  "problematic_to_retry prob_sched b word_flag_pairs =
     map (\<lambda>word. (word, dict_get (word_to_flags word_flag_pairs) word []))
       (filter (\<lambda>word. dict_contains word (word_to_flags word_flag_pairs))
          (pick prob_sched (problematic_words b)))"

definition regular_words_to_process ::
  "builder \<Rightarrow> (pystr \<times> pystr) list \<Rightarrow> (pystr \<times> pystr) list" where
  "regular_words_to_process b word_flag_pairs =
     filter (\<lambda>(word, flags). word \<notin> set (processed_words b)
               \<and> word \<notin> set (problematic_words b)) word_flag_pairs"

text \<open>\<open>main\<close> of \<open>google_translate_dictionary_builder.py\<close>.\<close>

definition main_google ::
  "(pystr \<Rightarrow> pystr option outcome) \<Rightarrow> nat list \<Rightarrow> nat list list \<Rightarrow>
   pystr list option \<Rightarrow> progress_file \<Rightarrow>
   error + (pystr \<times> pystr) world \<times> (pystr, pystr \<times> pystr) pydict"
where
  "main_google get_translation prob_sched scheds word_list_file progress_json =
     (case load_progress_google progress_json init_builder of
        Inl e \<Rightarrow> Inl e
      | Inr b \<Rightarrow>
          (case load_word_list word_list_file of
             Inl e \<Rightarrow> Inl e
           | Inr word_flag_pairs \<Rightarrow>
               (let words_to_process =
                      problematic_to_retry prob_sched b word_flag_pairs
                      @ regular_words_to_process b word_flag_pairs;
                    w0 = \<lparr>bld = b, disk = progress_json, trace = []\<rparr>
                in case (if words_to_process \<noteq> []
                         then process_words_google get_translation scheds words_to_process 100 w0
                         else Inr (w0,
                                map (\<lambda>word. (word, (dict_get (translations_dict b) word [],
                                                      dict_get (word_to_flags word_flag_pairs) word [])))
                                  (filter (\<lambda>word. dict_contains word (word_to_flags word_flag_pairs))
                                     (map fst (translations_dict b))))) of
                     Inl e \<Rightarrow> Inl e
                   | Inr (w, results) \<Rightarrow>
                       Inr (w\<lparr>trace := trace w @
                                [SaveProblematic (problematic_words (bld w)),
                                 SaveYomichan results]\<rparr>,
                            results))))"

text \<open>The words a run submitted, in order, and the dictionaries it wrote.\<close>

fun dispatched :: "'r event list \<Rightarrow> pystr list" where
  "dispatched [] = []"
| "dispatched (Dispatch word flags # es) = word # dispatched es"
| "dispatched (e # es) = dispatched es"

fun written :: "'r event list \<Rightarrow> (pystr, 'r) pydict list" where
  "written [] = []"
| "written (SaveYomichan results # es) = results # written es"
| "written (e # es) = written es"

fun checkpoints :: "'r event list \<Rightarrow> progress_data list" where
  "checkpoints [] = []"
| "checkpoints (SaveProgress d # es) = d # checkpoints es"
| "checkpoints (e # es) = checkpoints es"

section \<open>Batches by number, and words that translate\<close>

text \<open>
  The batch of the \<open>n\<close>-th iteration, \<open>word_flag_pairs[i:i + batch_size]\<close> at
  \<open>i = n * batch_size\<close>, and the number of iterations, which \<open>process_words\<close> computes as
  \<open>total_batches\<close> for its log line.
\<close>

definition batch_at :: "nat \<Rightarrow> nat \<Rightarrow> 'a list \<Rightarrow> 'a list" where
  "batch_at batch_size n word_flag_pairs = take batch_size (drop (n * batch_size) word_flag_pairs)"

definition total_batches :: "nat \<Rightarrow> 'a list \<Rightarrow> nat" where
  "total_batches batch_size word_flag_pairs = (length word_flag_pairs + batch_size - 1) div batch_size"

text \<open>
  A word translates when \<open>process_word\<close> returns a translation that the \<open>as_completed\<close>
  loop takes as one (\<open>if translation:\<close>). In Glosbe's program what \<open>process_word\<close> returns
  does not depend on the builder.
\<close>

definition ok_google :: "(pystr \<Rightarrow> pystr option outcome) \<Rightarrow> pystr \<Rightarrow> bool" where
  "ok_google get_translation word =
     (case process_word_google get_translation word of
        Returned translation \<Rightarrow> truthy translation
      | Raised \<Rightarrow> False)"

definition ok_glosbe ::
  "(pystr \<Rightarrow> pystr option outcome) \<Rightarrow> (pystr \<Rightarrow> pystr list outcome) \<Rightarrow> pystr \<Rightarrow> bool" where
  "ok_glosbe get_translation get_similar_phrases word =
     (case snd (process_word_glosbe get_translation get_similar_phrases init_builder word) of
        Returned (translation, exs) \<Rightarrow> truthy translation
      | Raised \<Rightarrow> False)"

section \<open>Concrete inputs\<close>

text \<open>
  Inputs at which the programs are run below. \<open>stub_agua\<close> is a client that translates
  \<open>agua\<close> and finds nothing for any other word; \<open>stub_all\<close> translates every word to
  \<open>ok\<close>. \<open>resumed_casa\<close> is the progress file a run leaves that translated \<open>casa\<close>;
  \<open>retry_casa\<close> is a progress file that lists \<open>casa\<close> as problematic and not as processed.
\<close>

definition stub_agua :: "pystr \<Rightarrow> pystr option outcome" where
  "stub_agua w = (if w = py ''agua'' then Returned (Some (py ''mul'')) else Returned None)"

definition stub_all :: "pystr \<Rightarrow> pystr option outcome" where
  "stub_all w = Returned (Some (py ''ok''))"

definition no_phrases :: "pystr \<Rightarrow> pystr list outcome" where
  "no_phrases w = Returned []"

definition resumed_casa :: progress_file where
  "resumed_casa =
     Snapshot \<lparr>f_translations = Some [(py ''casa'', py ''jip'')],
               f_examples = Some [(py ''casa'', [])],
               f_processed_words = Some [py ''casa''],
               f_problematic_words = Some [],
               f_results_count = Some 1\<rparr>"

definition retry_casa :: progress_file where
  "retry_casa =
     Snapshot \<lparr>f_translations = Some [],
               f_examples = Some [],
               f_processed_words = Some [],
               f_problematic_words = Some [py ''casa''],
               f_results_count = Some 0\<rparr>"

text \<open>
  The end-to-end scenario: the word list \<open>casa|n\<close>, \<open>xyz123\<close>, \<open>#comment\<close>, \<open>agua|n\<close>, a
  client that translates \<open>casa\<close> and \<open>agua\<close> and finds nothing for \<open>xyz123\<close>, and the
  state of a program that has just started with no progress file.
\<close>

definition stub_casa_agua :: "pystr \<Rightarrow> pystr option outcome" where
  "stub_casa_agua w =
     (if w = py ''casa'' then Returned (Some (py ''jip''))
      else if w = py ''agua'' then Returned (Some (py ''mul''))
      else Returned None)"

definition scenario_words :: "pystr list" where
  "scenario_words = [py ''casa|n'', py ''xyz123'', py ''#comment'', py ''agua|n'']"

definition fresh_google :: "(pystr \<times> pystr) world" where
  "fresh_google = \<lparr>bld = init_builder, disk = Missing, trace = []\<rparr>"

definition fresh_glosbe :: "(pystr \<times> pystr \<times> pystr list) world" where
  "fresh_glosbe = \<lparr>bld = init_builder, disk = Missing, trace = []\<rparr>"

section \<open>Evaluation\<close>

lemmas str_simps = strip_def isspace_def SEP_def HASH_def startswith_hash_def split_once_def
  parse_line_def read_pairs_def load_word_list_def set_add_def

lemmas run_simps = main_google_def main_glosbe_def load_progress_google_def
  load_progress_glosbe_def init_builder_def set_of_list_def process_words_google_def
  process_words_glosbe_def run_batch_def save_progress_def disk_during_save_def
  progress_data_google_def progress_data_glosbe_def complete_google_def complete_glosbe_def
  process_word_google_def process_word_glosbe_def truthy_def set_discard_def
  problematic_to_retry_def regular_words_to_process_def word_to_flags_def
  dict_contains_def dict_get_def Let_def batches_loop.simps

lemmas stub_simps = stub_agua_def stub_all_def no_phrases_def resumed_casa_def retry_casa_def

lemmas fixture_simps = stub_casa_agua_def scenario_words_def fresh_google_def fresh_glosbe_def

lemmas eval_simps = run_simps str_simps stub_simps fixture_simps

text \<open>
  The equation of \<open>batches_loop\<close> unfolds itself; it is used where the loop is evaluated
  or unfolded by hand, and is no simplification rule.
\<close>

declare batches_loop.simps [simp del]

section \<open>The word list\<close>

lemma remdups_snoc: "remdups (ys @ [w]) = remdups (filter (\<lambda>y. y \<noteq> w) ys) @ [w]"
  by (induction ys) auto

lemma set_add_set [simp]: "set (set_add x s) = insert x (set s)"
  by (auto simp: set_add_def)

lemma unique_loop_keys:
  "set seen = set (map fst acc) \<Longrightarrow>
   map fst (unique_loop seen acc xs) =
     map fst acc @ rev (remdups (rev (filter (\<lambda>k. k \<notin> set seen) (map fst xs))))"
proof (induction xs arbitrary: seen acc)
  case Nil
  then show ?case by simp
next
  case (Cons p xs)
  obtain w f where p: "p = (w, f)" by (cases p)
  show ?case
  proof (cases "w \<in> set seen")
    case True
    with Cons p show ?thesis by simp
  next
    case False
    have "set (set_add w seen) = set (map fst (acc @ [(w, f)]))"
      using Cons.prems by auto
    from Cons.IH[OF this]
    have IH: "map fst (unique_loop (set_add w seen) (acc @ [(w, f)]) xs) =
      map fst acc @ w # rev (remdups (rev (filter (\<lambda>k. k \<notin> set (set_add w seen)) (map fst xs))))"
      by simp
    have flt: "filter (\<lambda>y. y \<noteq> w) (rev (filter (\<lambda>k. k \<notin> set seen) (map fst xs))) =
               rev (filter (\<lambda>k. k \<notin> set (set_add w seen)) (map fst xs))"
      by (induction xs) auto
    have "rev (remdups (rev (filter (\<lambda>k. k \<notin> set seen) (map fst (p # xs))))) =
          w # rev (remdups (rev (filter (\<lambda>k. k \<notin> set (set_add w seen)) (map fst xs))))"
      using False p by (simp add: remdups_snoc flt del: set_add_set)
    with IH False p show ?thesis by simp
  qed
qed

lemma unique_loop_map_of:
  "set seen = set (map fst acc) \<Longrightarrow>
   map_of (unique_loop seen acc xs) = map_of (acc @ xs)"
proof (induction xs arbitrary: seen acc)
  case Nil
  then show ?case by simp
next
  case (Cons p xs)
  obtain w f where p: "p = (w, f)" by (cases p)
  show ?case
  proof (cases "w \<in> set seen")
    case True
    then have "w \<in> fst ` set acc" using Cons.prems by simp
    then have "map_of (acc @ p # xs) = map_of (acc @ xs)"
      using p by (auto simp: map_add_def fun_eq_iff  split: option.splits dest: weak_map_of_SomeI map_of_eq_None_iff[THEN iffD1])
    with Cons True p show ?thesis by simp
  next
    case False
    have "set (set_add w seen) = set (map fst (acc @ [(w, f)]))"
      using Cons.prems by auto
    from Cons.IH[OF this] False p show ?thesis by simp
  qed
qed

lemma strip_idem: "strip (strip s) = strip s"
  unfolding strip_def
  by (metis (no_types, lifting) ext Nil_is_rev_conv dropWhile_eq_Nil_conv
    dropWhile_eq_self_iff dropWhile_last hd_dropWhile last_rev
    rev_swap)

lemma split_once_at_first:
  "SEP \<notin> set w \<Longrightarrow> split_once (w @ SEP # m) = (w, m)"
  by (induction w) (simp_all add: split_once_def)

lemma load_word_list_keys:
  "load_word_list (Some lines) = Inr ps \<Longrightarrow> map fst ps = rev (remdups (rev (map fst (read_pairs lines))))"
  using unique_loop_keys[of "[]" "[]" "read_pairs lines"] by (auto simp: load_word_list_def)

lemma load_word_list_distinct:
  "load_word_list (Some lines) = Inr ps \<Longrightarrow> distinct (map fst ps)"
  by (simp add: load_word_list_keys)

text \<open>
  C10 (as amended). \<open>load_word_list\<close> returns at most one pair per word; the words are
  the first occurrences in the order of the file, and each keeps the flags of its first
  occurrence (\<open>map_of\<close> looks up the first pair of a word). A blank or comment line gives
  nothing; a line without separator gives the stripped line with empty flags; a line with
  a separator is split at the first one only, and the flags are everything after it,
  later separators included, with the whitespace at both ends stripped.
\<close>

theorem load_word_list_first_occurrence:
  "\<exists>ps. load_word_list (Some lines) = Inr ps
      \<and> distinct (map fst ps)
      \<and> map fst ps = rev (remdups (rev (map fst (read_pairs lines))))
      \<and> map_of ps = map_of (read_pairs lines)
      \<and> (strip raw = [] \<or> startswith_hash (strip raw) \<longrightarrow> parse_line raw = [])
      \<and> (strip raw \<noteq> [] \<and> \<not> startswith_hash (strip raw) \<and> SEP \<notin> set (strip raw)
           \<longrightarrow> parse_line raw = [(strip raw, [])])
      \<and> (\<forall>w m. strip raw = w @ SEP # m \<and> SEP \<notin> set w \<and> \<not> startswith_hash (strip raw)
           \<longrightarrow> parse_line raw = [(strip w, strip m)])"
proof -
  obtain ps where ps: "load_word_list (Some lines) = Inr ps"
    by (simp add: load_word_list_def)
  have 1: "distinct (map fst ps)" using ps by (rule load_word_list_distinct)
  have 2: "map fst ps = rev (remdups (rev (map fst (read_pairs lines))))"
    using ps by (rule load_word_list_keys)
  have 3: "map_of ps = map_of (read_pairs lines)"
    using ps unique_loop_map_of[of "[]" "[]" "read_pairs lines"]
    by (auto simp: load_word_list_def)
  have 4: "strip raw = [] \<or> startswith_hash (strip raw) \<longrightarrow> parse_line raw = []"
    by (auto simp: parse_line_def Let_def)
  have 5: "strip raw \<noteq> [] \<and> \<not> startswith_hash (strip raw) \<and> SEP \<notin> set (strip raw)
           \<longrightarrow> parse_line raw = [(strip raw, [])]"
    by (auto simp: parse_line_def Let_def strip_idem)
  have 6: "\<forall>w m. strip raw = w @ SEP # m \<and> SEP \<notin> set w \<and> \<not> startswith_hash (strip raw)
           \<longrightarrow> parse_line raw = [(strip w, strip m)]"
    by (auto simp: parse_line_def Let_def split_once_at_first)
  from ps 1 2 3 4 5 6 show ?thesis by blast
qed

theorem load_word_list_first_occurrence_witness:
  "load_word_list (Some [py ''casa|n|x'', py ''# note'', py '''', py ''agua'', py '' casa | m'']) =
     Inr [(py ''casa'', py ''n|x''), (py ''agua'', [])]
   \<and> parse_line (py '' casa| n|x '') = [(py ''casa'', py ''n|x'')]"
proof -
  let ?lines = "[py ''casa|n|x'', py ''# note'', py '''', py ''agua'', py '' casa | m'']"
  let ?raw = "py '' casa| n|x ''"
  have rp: "read_pairs ?lines = [(py ''casa'', py ''n|x''), (py ''agua'', []), (py ''casa'', py ''m'')]"
    by (simp add: str_simps)
  have h: "strip ?raw = py ''casa'' @ SEP # py '' n|x'' \<and> SEP \<notin> set (py ''casa'')
            \<and> \<not> startswith_hash (strip ?raw)"
    by (simp add: str_simps)
  from load_word_list_first_occurrence[of ?lines ?raw]
  obtain ps where ps: "load_word_list (Some ?lines) = Inr ps"
    and keys: "map fst ps = rev (remdups (rev (map fst (read_pairs ?lines))))"
    and vals: "map_of ps = map_of (read_pairs ?lines)"
    and split: "\<forall>w m. strip ?raw = w @ SEP # m \<and> SEP \<notin> set w \<and> \<not> startswith_hash (strip ?raw)
           \<longrightarrow> parse_line ?raw = [(strip w, strip m)]"
    by blast
  from split h have "parse_line ?raw = [(strip (py ''casa''), strip (py '' n|x''))]" by blast
  then have p: "parse_line ?raw = [(py ''casa'', py ''n|x'')]" by (simp add: str_simps)
  have "load_word_list (Some ?lines) = Inr [(py ''casa'', py ''n|x''), (py ''agua'', [])]"
    by (simp add: str_simps)
  with p show ?thesis by blast
qed

text \<open>
  C10 as stated fails where it says the metadata is passed through unchanged: the text
  after the first separator of \<open>a| b\<close> is \<open> b\<close>, and the flags returned are \<open>b\<close>.
\<close>

theorem metadata_is_trimmed:
  "split_once (py ''a| b'') = (py ''a'', py '' b'')
   \<and> load_word_list (Some [py ''a| b'']) = Inr [(py ''a'', py ''b'')]
   \<and> py ''b'' \<noteq> py '' b''"
  by (simp add: str_simps)

section \<open>Loading and saving the progress\<close>

text \<open>
  C2 (as amended). \<open>save_progress\<close> writes over \<open>progress.json\<close> in place. A save that
  has run to its end leaves the document it built, and loading that document gives back
  the dictionaries and sets that were saved. A process killed before the file is opened
  leaves the file as it was. A process killed after the file has been opened and before
  the document is complete leaves a file that \<open>load_progress\<close> cannot read: it raises
  \<open>JSONDecodeError\<close>, whatever the file held before.
\<close>

theorem save_progress_in_place:
  "disk (save_progress mk w results) = Snapshot (mk (bld w) (length results))
   \<and> (\<exists>b'. load_progress_google (disk (save_progress progress_data_google w results)) b = Inr b'
         \<and> translations_dict b' = translations_dict (bld w)
         \<and> set (processed_words b') = set (processed_words (bld w))
         \<and> set (problematic_words b') = set (problematic_words (bld w)))
   \<and> (\<exists>b'. load_progress_glosbe (disk (save_progress progress_data_glosbe w results)) b = Inr b'
         \<and> translations_dict b' = translations_dict (bld w)
         \<and> examples b' = examples (bld w)
         \<and> set (processed_words b') = set (processed_words (bld w))
         \<and> set (problematic_words b') = set (problematic_words (bld w)))
   \<and> disk_during_save 0 old d = old
   \<and> load_progress_google (disk_during_save 1 old d) b = Inl JSONDecodeError
   \<and> load_progress_glosbe (disk_during_save 1 old d) b = Inl JSONDecodeError"
  by (simp add: save_progress_def disk_during_save_def load_progress_glosbe_def
      load_progress_google_def progress_data_glosbe_def progress_data_google_def
      set_of_list_def Let_def)

text \<open>
  C2 as stated fails: \<open>resumed_casa\<close> is a checkpoint that loads; a later save killed
  between opening the file and finishing the document leaves a file that does not load,
  and the checkpoint is gone.
\<close>

theorem save_progress_not_atomic:
  "load_progress_google resumed_casa init_builder =
     Inr \<lparr>translations_dict = [(py ''casa'', py ''jip'')], examples = [],
          processed_words = [py ''casa''], problematic_words = []\<rparr>
   \<and> load_progress_google
        (disk_during_save 1 resumed_casa
           (progress_data_google
              \<lparr>translations_dict = [(py ''casa'', py ''jip''), (py ''agua'', py ''mul'')],
               examples = [], processed_words = [py ''casa'', py ''agua''],
               problematic_words = []\<rparr> 1))
        init_builder = Inl JSONDecodeError
   \<and> load_progress_glosbe
        (disk_during_save 1 resumed_casa
           (progress_data_glosbe
              \<lparr>translations_dict = [(py ''casa'', py ''jip''), (py ''agua'', py ''mul'')],
               examples = [], processed_words = [py ''casa'', py ''agua''],
               problematic_words = []\<rparr> 1))
        init_builder = Inl JSONDecodeError"
  by (simp add: run_simps stub_simps)

section \<open>The dictionary written at the end of a run\<close>

text \<open>
  C1 at a resumed run. The progress file holds the translation of \<open>casa\<close> from an
  earlier run; the word list is \<open>casa\<close>, \<open>agua\<close>; the client translates \<open>agua\<close>. Both
  programs end with both translations in \<open>translations_dict\<close>. Google's program writes the
  dictionary once, with \<open>agua\<close> alone; Glosbe's program writes it twice, each time with
  \<open>agua\<close> alone.
\<close>

theorem save_yomichan_gets_current_run_only:
  "(case main_google stub_agua [] [] (Some [py ''casa'', py ''agua'']) resumed_casa of
      Inl e \<Rightarrow> False
    | Inr (w, results) \<Rightarrow>
        translations_dict (bld w) = [(py ''casa'', py ''jip''), (py ''agua'', py ''mul'')]
        \<and> written (trace w) = [[(py ''agua'', (py ''mul'', []))]])
   \<and> (case main_glosbe stub_agua no_phrases [] (Some [py ''casa'', py ''agua'']) resumed_casa of
      Inl e \<Rightarrow> False
    | Inr (w, results) \<Rightarrow>
        translations_dict (bld w) = [(py ''casa'', py ''jip''), (py ''agua'', py ''mul'')]
        \<and> written (trace w) =
            [[(py ''agua'', (py ''mul'', [], []))], [(py ''agua'', (py ''mul'', [], []))]])"
  by (simp add: run_simps str_simps stub_simps)

section \<open>The invariants of the progress state\<close>

text \<open>
  C9 at a retried word. The progress file lists \<open>casa\<close> as problematic and not as
  processed, and has no translation: the invariants hold of it. The word list is
  \<open>casa\<close> and the client translates it. Glosbe's program checkpoints a state in which
  \<open>casa\<close> is translated and still problematic; Google's program, which discards a
  translated word from \<open>problematic_words\<close>, checkpoints it translated and not problematic.
\<close>

theorem glosbe_keeps_translated_word_problematic:
  "(case main_glosbe stub_all no_phrases [] (Some [py ''casa'']) retry_casa of
      Inl e \<Rightarrow> False
    | Inr (w, results) \<Rightarrow>
        map f_translations (checkpoints (trace w)) = [Some [(py ''casa'', py ''ok'')]]
        \<and> map f_problematic_words (checkpoints (trace w)) = [Some [py ''casa'']]
        \<and> map f_processed_words (checkpoints (trace w)) = [Some [py ''casa'']])
   \<and> (case main_google stub_all [] [] (Some [py ''casa'']) retry_casa of
      Inl e \<Rightarrow> False
    | Inr (w, results) \<Rightarrow>
        map f_translations (checkpoints (trace w)) = [Some [(py ''casa'', py ''ok'')]]
        \<and> map f_problematic_words (checkpoints (trace w)) = [Some []]
        \<and> map f_processed_words (checkpoints (trace w)) = [Some [py ''casa'']])"
  by (simp add: run_simps str_simps stub_simps)

section \<open>Orders, dictionaries and sets\<close>

lemma mset_pick: "mset (pick sched xs) = mset xs"
proof (induction sched arbitrary: xs)
  case Nil
  then show ?case by simp
next
  case (Cons n ns)
  show ?case
  proof (cases "xs = []")
    case True
    then show ?thesis by simp
  next
    case False
    define i where "i = n mod length xs"
    have i: "i < length xs" using False by (simp add: i_def)
    have "mset (pick (n # ns) xs) = add_mset (xs ! i) (mset (take i xs @ drop (Suc i) xs))"
      using False Cons.IH by (simp add: i_def Let_def)
    also have "\<dots> = mset (take i xs @ xs ! i # drop (Suc i) xs)" by simp
    also have "\<dots> = mset xs" using id_take_nth_drop[OF i] by simp
    finally show ?thesis .
  qed
qed

lemma pick_Nil [simp]: "pick sched [] = []"
  by (cases sched) simp_all

lemma set_pick [simp]: "set (pick sched xs) = set xs"
  using mset_pick by (rule mset_eq_setD)

lemma distinct_pick [simp]: "distinct (pick sched xs) = distinct xs"
  using mset_pick by (rule mset_eq_imp_distinct_iff)

lemma keys_dict_set [simp]: "fst ` set (dict_set k v d) = insert k (fst ` set d)"
  by (induction d) auto

lemma set_discard_set [simp]: "set (set_discard x s) = set s - {x}"
  by (auto simp: set_discard_def)

lemma foldl_effect:
  assumes step: "\<And>st k f. F (complete st (k, f)) = (F st - {x. x = k \<and> rem k}) \<union> {x. x = k \<and> add k}"
      and excl: "\<And>k. \<not> (rem k \<and> add k)"
  shows "F (foldl complete st items) =
           (F st - {k \<in> fst ` set items. rem k}) \<union> {k \<in> fst ` set items. add k}"
proof (induction items arbitrary: st)
  case Nil
  then show ?case by simp
next
  case (Cons it items)
  obtain k f where it: "it = (k, f)" by (cases it)
  have "F (foldl complete st (it # items)) =
        (((F st - {x. x = k \<and> rem k}) \<union> {x. x = k \<and> add k}) - {k \<in> fst ` set items. rem k})
          \<union> {k \<in> fst ` set items. add k}"
    using Cons.IH[of "complete st (k, f)"] it by (simp add: step)
  also have "\<dots> = (F st - {k \<in> fst ` set (it # items). rem k}) \<union> {k \<in> fst ` set (it # items). add k}"
    using excl it by auto
  finally show ?case .
qed

lemma run_batch_eq:
  "run_batch complete mk sched batch (w, results) =
     (let wtp = filter (\<lambda>(word, flags). word \<notin> set (processed_words (bld w))) batch;
          st = foldl complete (bld w, results) (pick sched wtp);
          d = mk (fst st) (length (snd st))
      in (w\<lparr>bld := fst st, disk := Snapshot d,
            trace := trace w @ map (\<lambda>(word, flags). Dispatch word flags) wtp @ [SaveProgress d]\<rparr>,
          snd st))"
  by (simp add: run_batch_def save_progress_def disk_during_save_def Let_def split: prod.split)

lemma run_batch_effect:
  assumes step: "\<And>st k f. F (complete st (k, f)) = (F st - {x. x = k \<and> rem k}) \<union> {x. x = k \<and> add k}"
      and excl: "\<And>k. \<not> (rem k \<and> add k)"
      and run: "run_batch complete mk sched batch (w, results) = (w', results')"
  shows "F (bld w', results') =
           (F (bld w, results) - {k \<in> fst ` set batch - set (processed_words (bld w)). rem k})
             \<union> {k \<in> fst ` set batch - set (processed_words (bld w)). add k}"
proof -
  let ?wtp = "filter (\<lambda>(word, flags). word \<notin> set (processed_words (bld w))) batch"
  have st: "(bld w', results') = foldl complete (bld w, results) (pick sched ?wtp)"
    using run by (auto simp: run_batch_eq Let_def)
  have keys: "fst ` set (pick sched ?wtp) = fst ` set batch - set (processed_words (bld w))"
    by (auto simp: image_iff)
  show ?thesis
    unfolding st using foldl_effect[of F complete rem add, OF step excl, of "(bld w, results)" "pick sched ?wtp"]
    by (simp only: keys)
qed

lemma batches_loop_unfold:
  "batches_loop step bs scheds xs st =
     (if xs = [] \<or> bs = 0 then st
      else batches_loop step bs (tl scheds) (drop bs xs)
             (step (case scheds of [] \<Rightarrow> [] | s # _ \<Rightarrow> s) (take bs xs) st))"
  by (rule batches_loop.simps)

lemma loop_effect:
  assumes proc: "\<And>st k f. set (processed_words (fst (complete st (k, f)))) = insert k (set (processed_words (fst st)))"
      and step: "\<And>st k f. F (complete st (k, f)) = (F st - {x. x = k \<and> rem k}) \<union> {x. x = k \<and> add k}"
      and excl: "\<And>k. \<not> (rem k \<and> add k)"
      and bs: "0 < bs"
  shows "batches_loop (run_batch complete mk) bs scheds xs (w, results) = (w', results') \<Longrightarrow>
         set (processed_words (bld w')) = set (processed_words (bld w)) \<union> fst ` set xs
         \<and> F (bld w', results') =
           (F (bld w, results) - {k \<in> fst ` set xs - set (processed_words (bld w)). rem k})
             \<union> {k \<in> fst ` set xs - set (processed_words (bld w)). add k}"
proof (induction xs arbitrary: scheds w results rule: length_induct)
  case (1 xs)
  show ?case
  proof (cases "xs = []")
    case True
    with 1 show ?thesis by (simp add: batches_loop_unfold[of _ _ _ "[]"])
  next
    case False
    let ?sched = "case scheds of [] \<Rightarrow> [] | s # _ \<Rightarrow> s"
    obtain w1 r1 where b1: "run_batch complete mk ?sched (take bs xs) (w, results) = (w1, r1)"
      by (cases "run_batch complete mk ?sched (take bs xs) (w, results)")
    have rest: "batches_loop (run_batch complete mk) bs (tl scheds) (drop bs xs) (w1, r1) = (w', results')"
      using 1(2) False bs b1 by (subst (asm) batches_loop_unfold) simp
    have len: "length (drop bs xs) < length xs" using False bs by simp
    from 1(1)[rule_format, OF len rest]
    have IHp: "set (processed_words (bld w')) = set (processed_words (bld w1)) \<union> fst ` set (drop bs xs)"
      and IHf: "F (bld w', results') =
           (F (bld w1, r1) - {k \<in> fst ` set (drop bs xs) - set (processed_words (bld w1)). rem k})
             \<union> {k \<in> fst ` set (drop bs xs) - set (processed_words (bld w1)). add k}"
      by blast+
    have procF: "\<And>st k f. (set \<circ> processed_words \<circ> fst) (complete st (k, f)) =
        ((set \<circ> processed_words \<circ> fst) st - {x. x = k \<and> False}) \<union> {x. x = k \<and> True}"
      using proc by auto
    have p1: "set (processed_words (bld w1)) = set (processed_words (bld w)) \<union> fst ` set (take bs xs)"
      using run_batch_effect[of "set \<circ> processed_words \<circ> fst" complete "\<lambda>_. False" "\<lambda>_. True", OF procF _ b1]
      by auto
    have f1: "F (bld w1, r1) =
           (F (bld w, results) - {k \<in> fst ` set (take bs xs) - set (processed_words (bld w)). rem k})
             \<union> {k \<in> fst ` set (take bs xs) - set (processed_words (bld w)). add k}"
      by (rule run_batch_effect[OF step excl b1])
    have split: "fst ` set xs = fst ` set (take bs xs) \<union> fst ` set (drop bs xs)"
      by (metis append_take_drop_id image_Un set_append)
    show ?thesis
      unfolding IHp IHf p1 f1 split using excl by auto
  qed
qed

section \<open>What a run dispatches\<close>

lemma dispatched_append [simp]: "dispatched (t1 @ t2) = dispatched t1 @ dispatched t2"
  by (induction t1 rule: dispatched.induct) simp_all

lemma dispatched_map_Dispatch [simp]:
  "dispatched (map (\<lambda>(word, flags). Dispatch word flags) l) = map fst l"
  by (induction l) auto

lemma total_batches_step:
  assumes "xs \<noteq> []" "0 < bs"
  shows "total_batches bs xs = Suc (total_batches bs (drop bs xs))"
proof (cases "length xs \<le> bs")
  case True
  have L: "0 < length xs" using assms(1) by (cases xs) simp_all
  define m where "m = length xs - 1"
  have m: "length xs = Suc m" "m < bs" using L True unfolding m_def by arith+
  have "(length xs + bs - 1) div bs = (m + bs) div bs" by (simp add: m)
  also have "\<dots> = Suc (m div bs)" using assms(2) div_add_self2[of bs m] by auto
  also have "\<dots> = 1" using m by simp
  finally have a: "(length xs + bs - 1) div bs = 1" .
  have "length (drop bs xs) + bs - 1 = bs - 1" using True by simp
  then have b: "(length (drop bs xs) + bs - 1) div bs = 0" using assms(2) by simp
  show ?thesis using a b by (simp add: total_batches_def)
next
  case False
  define m where "m = length xs - 1"
  have m: "length xs = Suc m" "bs \<le> m" using False unfolding m_def by arith+
  have "length (drop bs xs) + bs - 1 = m" using m by simp
  then have b: "(length (drop bs xs) + bs - 1) div bs = m div bs" by simp
  have "(length xs + bs - 1) div bs = (m + bs) div bs" by (simp add: m)
  also have "\<dots> = Suc (m div bs)" using assms(2) div_add_self2[of bs m] by auto
  finally show ?thesis using b by (simp add: total_batches_def)
qed

lemma map_fst_filter_keys:
  "map fst (filter (\<lambda>(word, flags). P word) l) = filter P (map fst l)"
  by (induction l) auto

lemma run_batch_dispatched:
  "run_batch complete mk sched batch (w, results) = (w1, r1) \<Longrightarrow>
   dispatched (trace w1) =
     dispatched (trace w) @ filter (\<lambda>k. k \<notin> set (processed_words (bld w))) (map fst batch)"
  by (auto simp: run_batch_eq Let_def map_fst_filter_keys)

lemma loop_dispatched:
  assumes proc: "\<And>st k f. set (processed_words (fst (complete st (k, f)))) = insert k (set (processed_words (fst st)))"
      and bs: "0 < bs"
  shows "batches_loop (run_batch complete mk) bs scheds xs (w, results) = (w', results') \<Longrightarrow>
         distinct (map fst xs) \<Longrightarrow>
         dispatched (trace w') =
           dispatched (trace w) @ filter (\<lambda>k. k \<notin> set (processed_words (bld w))) (map fst xs)"
proof (induction xs arbitrary: scheds w results rule: length_induct)
  case (1 xs)
  show ?case
  proof (cases "xs = []")
    case True
    with 1 show ?thesis by (simp add: batches_loop_unfold[of _ _ _ "[]"])
  next
    case False
    let ?sched = "case scheds of [] \<Rightarrow> [] | s # _ \<Rightarrow> s"
    obtain w1 r1 where b1: "run_batch complete mk ?sched (take bs xs) (w, results) = (w1, r1)"
      by (cases "run_batch complete mk ?sched (take bs xs) (w, results)")
    have rest: "batches_loop (run_batch complete mk) bs (tl scheds) (drop bs xs) (w1, r1) = (w', results')"
      using 1(2) False bs b1 by (subst (asm) batches_loop_unfold) simp
    have len: "length (drop bs xs) < length xs" using False bs by simp
    have d2: "distinct (map fst (drop bs xs))" using 1(3) by (simp add: distinct_drop drop_map[symmetric])
    from 1(1)[rule_format, OF len rest d2]
    have IH: "dispatched (trace w') =
           dispatched (trace w1) @ filter (\<lambda>k. k \<notin> set (processed_words (bld w1))) (map fst (drop bs xs))" .
    have procF: "\<And>st k f. (set \<circ> processed_words \<circ> fst) (complete st (k, f)) =
        ((set \<circ> processed_words \<circ> fst) st - {x. x = k \<and> False}) \<union> {x. x = k \<and> True}"
      using proc by auto
    have p1: "set (processed_words (bld w1)) = set (processed_words (bld w)) \<union> fst ` set (take bs xs)"
      using run_batch_effect[of "set \<circ> processed_words \<circ> fst" complete "\<lambda>_. False" "\<lambda>_. True", OF procF _ b1]
      by auto
    have t1: "dispatched (trace w1) = dispatched (trace w) @
        filter (\<lambda>k. k \<notin> set (processed_words (bld w))) (map fst (take bs xs))"
      using b1 by (rule run_batch_dispatched)
    have disj: "set (map fst (take bs xs)) \<inter> set (map fst (drop bs xs)) = {}"
      using 1(3) by (metis append_take_drop_id distinct_append map_append)
    have f2: "filter (\<lambda>k. k \<notin> set (processed_words (bld w1))) (map fst (drop bs xs)) =
              filter (\<lambda>k. k \<notin> set (processed_words (bld w))) (map fst (drop bs xs))"
      using disj by (intro filter_cong) (auto simp: p1)
    have "map fst xs = map fst (take bs xs) @ map fst (drop bs xs)"
      by (metis append_take_drop_id map_append)
    then show ?thesis unfolding IH t1 f2 by simp
  qed
qed

section \<open>The trace of the loop\<close>

lemma loop_trace:
  assumes proc: "\<And>st k f. set (processed_words (fst (complete st (k, f)))) = insert k (set (processed_words (fst st)))"
      and bs: "0 < bs"
  shows "batches_loop (run_batch complete mk) bs scheds xs (w :: 'r world, results) = (w', results') \<Longrightarrow>
         \<exists>cs. length cs = total_batches bs xs
           \<and> trace w' = trace w @ concat (map (\<lambda>n.
                 map (\<lambda>(word, flags). Dispatch word flags)
                   (filter (\<lambda>(word, flags). word \<notin> set (processed_words (bld w)) \<union> fst ` set (take (n * bs) xs))
                      (batch_at bs n xs))
                 @ [SaveProgress (mk (fst (cs ! n)) (snd (cs ! n)))]) [0..<length cs])
           \<and> (\<forall>n<length cs. set (processed_words (fst (cs ! n))) =
                  set (processed_words (bld w)) \<union> fst ` set (take (Suc n * bs) xs))
           \<and> (xs \<noteq> [] \<longrightarrow> last cs = (bld w', length results')
                  \<and> disk w' = Snapshot (mk (bld w') (length results')))
           \<and> (xs = [] \<longrightarrow> w' = w \<and> results' = results)"
proof (induction xs arbitrary: scheds w results rule: length_induct)
  case (1 xs)
  show ?case
  proof (cases "xs = []")
    case True
    with 1(2) have "w' = w \<and> results' = results" by (simp add: batches_loop_unfold[of _ _ _ "[]"])
    moreover have "total_batches bs xs = 0" using True bs by (simp add: total_batches_def)
    ultimately show ?thesis using True by (intro exI[of _ "[]"]) simp
  next
    case False
    let ?sched = "case scheds of [] \<Rightarrow> [] | s # _ \<Rightarrow> s"
    let ?P = "set (processed_words (bld w))"
    obtain w1 r1 where b1: "run_batch complete mk ?sched (take bs xs) (w, results) = (w1, r1)"
      by (cases "run_batch complete mk ?sched (take bs xs) (w, results)")
    have rest: "batches_loop (run_batch complete mk) bs (tl scheds) (drop bs xs) (w1, r1) = (w', results')"
      using 1(2) False bs b1 by (subst (asm) batches_loop_unfold) simp
    have len: "length (drop bs xs) < length xs" using False bs by simp
    have procF: "\<And>st k f. (set \<circ> processed_words \<circ> fst) (complete st (k, f)) =
        ((set \<circ> processed_words \<circ> fst) st - {x. x = k \<and> False}) \<union> {x. x = k \<and> True}"
      using proc by auto
    have p1: "set (processed_words (bld w1)) = ?P \<union> fst ` set (take bs xs)"
      using run_batch_effect[of "set \<circ> processed_words \<circ> fst" complete "\<lambda>_. False" "\<lambda>_. True", OF procF _ b1]
      by auto
    have t1: "trace w1 = trace w @ map (\<lambda>(word, flags). Dispatch word flags)
                 (filter (\<lambda>(word, flags). word \<notin> ?P) (take bs xs))
               @ [SaveProgress (mk (bld w1) (length r1))]"
      and d1: "disk w1 = Snapshot (mk (bld w1) (length r1))"
      using b1 by (auto simp: run_batch_eq Let_def)
    from 1(1)[rule_format, OF len rest]
    obtain cs where
      lcs: "length cs = total_batches bs (drop bs xs)" and
      tr: "trace w' = trace w1 @ concat (map (\<lambda>n.
                 map (\<lambda>(word, flags). Dispatch word flags)
                   (filter (\<lambda>(word, flags). word \<notin> set (processed_words (bld w1)) \<union> fst ` set (take (n * bs) (drop bs xs)))
                      (batch_at bs n (drop bs xs)))
                 @ [SaveProgress (mk (fst (cs ! n)) (snd (cs ! n)))]) [0..<length cs])" and
      pr: "\<forall>n<length cs. set (processed_words (fst (cs ! n))) =
                  set (processed_words (bld w1)) \<union> fst ` set (take (Suc n * bs) (drop bs xs))" and
      la: "drop bs xs \<noteq> [] \<longrightarrow> last cs = (bld w', length results')
                  \<and> disk w' = Snapshot (mk (bld w') (length results'))" and
      em: "drop bs xs = [] \<longrightarrow> w' = w1 \<and> results' = r1"
      by blast
    let ?cs = "(bld w1, length r1) # cs"
    have keys: "\<And>n. fst ` set (take bs xs) \<union> fst ` set (take (n * bs) (drop bs xs))
                  = fst ` set (take (Suc n * bs) xs)"
    proof -
      fix n
      have "take (Suc n * bs) xs = take bs xs @ take (n * bs) (drop bs xs)"
        by (simp add: take_add)
      then show "fst ` set (take bs xs) \<union> fst ` set (take (n * bs) (drop bs xs))
                  = fst ` set (take (Suc n * bs) xs)" by (simp add: image_Un)
    qed
    have slice: "\<And>n. batch_at bs n (drop bs xs) = batch_at bs (Suc n) xs"
      by (simp add: batch_at_def add.commute)
    have c1: "length ?cs = total_batches bs xs"
      using lcs total_batches_step[OF False bs] by simp
    define g' :: "nat \<Rightarrow> 'r event list" where "g' = (\<lambda>n.
                 map (\<lambda>(word, flags). Dispatch word flags)
                   (filter (\<lambda>(word, flags). word \<notin> set (processed_words (bld w1)) \<union> fst ` set (take (n * bs) (drop bs xs)))
                      (batch_at bs n (drop bs xs)))
                 @ [SaveProgress (mk (fst (cs ! n)) (snd (cs ! n)))])"
    define g :: "nat \<Rightarrow> 'r event list" where "g = (\<lambda>n.
                 map (\<lambda>(word, flags). Dispatch word flags)
                   (filter (\<lambda>(word, flags). word \<notin> ?P \<union> fst ` set (take (n * bs) xs))
                      (batch_at bs n xs))
                 @ [SaveProgress (mk (fst (?cs ! n)) (snd (?cs ! n)))])"
    have gS: "g (Suc n) = g' n" for n
      unfolding g_def g'_def slice p1 keys[of n, symmetric] Un_assoc nth_Cons_Suc ..
    have g0: "g 0 = map (\<lambda>(word, flags). Dispatch word flags)
                 (filter (\<lambda>(word, flags). word \<notin> ?P) (take bs xs))
               @ [SaveProgress (mk (bld w1) (length r1))]"
      by (simp add: g_def batch_at_def)
    have "trace w' = trace w @ g 0 @ concat (map g' [0..<length cs])"
      using tr t1 by (simp add: g0 g'_def)
    also have "\<dots> = trace w @ concat (map g [0..<length ?cs])"
      by (simp add: map_upt_Suc gS del: upt_Suc)
    finally have c2: "trace w' = trace w @ concat (map (\<lambda>n.
                 map (\<lambda>(word, flags). Dispatch word flags)
                   (filter (\<lambda>(word, flags). word \<notin> ?P \<union> fst ` set (take (n * bs) xs))
                      (batch_at bs n xs))
                 @ [SaveProgress (mk (fst (?cs ! n)) (snd (?cs ! n)))]) [0..<length ?cs])"
      unfolding g_def .
    have c3: "\<forall>n<length ?cs. set (processed_words (fst (?cs ! n))) =
                  ?P \<union> fst ` set (take (Suc n * bs) xs)"
    proof (intro allI impI)
      fix n assume n: "n < length ?cs"
      show "set (processed_words (fst (?cs ! n))) = ?P \<union> fst ` set (take (Suc n * bs) xs)"
      proof (cases n)
        case 0
        then show ?thesis using p1 by simp
      next
        case (Suc m)
        then have "m < length cs" using n by simp
        with pr have "set (processed_words (fst (cs ! m))) =
                  set (processed_words (bld w1)) \<union> fst ` set (take (Suc m * bs) (drop bs xs))" by blast
        then show ?thesis using Suc keys[of "Suc m"] p1 by (simp add: Un_assoc del: mult_Suc)
      qed
    qed
    have c4: "last ?cs = (bld w', length results') \<and> disk w' = Snapshot (mk (bld w') (length results'))"
    proof (cases "drop bs xs = []")
      case True
      then have "cs = []" using lcs bs by (simp add: total_batches_def)
      with True em d1 show ?thesis by simp
    next
      case False
      then have "cs \<noteq> []" using lcs total_batches_step[OF False bs] by auto
      with False la show ?thesis by simp
    qed
    from c1 c2 c3 c4 False show ?thesis by blast
  qed
qed

text \<open>
  The same loop with the state after every batch: \<open>ws ! n\<close> is what the loop has made of
  the first \<open>n + 1\<close> batches, and what it saves after batch \<open>n\<close> is built from that state,
  which is then the progress file.
\<close>

lemma loop_checkpoints:
  assumes proc: "\<And>st k f. set (processed_words (fst (complete st (k, f)))) = insert k (set (processed_words (fst st)))"
      and bs: "0 < bs"
  shows "batches_loop (run_batch complete mk) bs scheds xs (w :: 'r world, results) = (w', results') \<Longrightarrow>
         \<exists>ws. length ws = total_batches bs xs
           \<and> trace w' = trace w @ concat (map (\<lambda>n.
                 map (\<lambda>(word, flags). Dispatch word flags)
                   (filter (\<lambda>(word, flags). word \<notin> set (processed_words (bld w)) \<union> fst ` set (take (n * bs) xs))
                      (batch_at bs n xs))
                 @ [SaveProgress (mk (bld (fst (ws ! n))) (length (snd (ws ! n))))]) [0..<length ws])
           \<and> (\<forall>n<length ws.
                 batches_loop (run_batch complete mk) bs scheds (take (Suc n * bs) xs) (w, results) = ws ! n
                 \<and> disk (fst (ws ! n)) = Snapshot (mk (bld (fst (ws ! n))) (length (snd (ws ! n)))))
           \<and> (xs \<noteq> [] \<longrightarrow> last ws = (w', results'))"
proof (induction xs arbitrary: scheds w results rule: length_induct)
  case (1 xs)
  show ?case
  proof (cases "xs = []")
    case True
    with 1(2) have "w' = w \<and> results' = results" by (simp add: batches_loop_unfold[of _ _ _ "[]"])
    moreover have "total_batches bs xs = 0" using True bs by (simp add: total_batches_def)
    ultimately show ?thesis using True by (intro exI[of _ "[]"]) simp
  next
    case False
    let ?sched = "case scheds of [] \<Rightarrow> [] | s # _ \<Rightarrow> s"
    let ?P = "set (processed_words (bld w))"
    obtain w1 r1 where b1: "run_batch complete mk ?sched (take bs xs) (w, results) = (w1, r1)"
      by (cases "run_batch complete mk ?sched (take bs xs) (w, results)")
    have rest: "batches_loop (run_batch complete mk) bs (tl scheds) (drop bs xs) (w1, r1) = (w', results')"
      using 1(2) False bs b1 by (subst (asm) batches_loop_unfold) simp
    have len: "length (drop bs xs) < length xs" using False bs by simp
    have procF: "\<And>st k f. (set \<circ> processed_words \<circ> fst) (complete st (k, f)) =
        ((set \<circ> processed_words \<circ> fst) st - {x. x = k \<and> False}) \<union> {x. x = k \<and> True}"
      using proc by auto
    have p1: "set (processed_words (bld w1)) = ?P \<union> fst ` set (take bs xs)"
      using run_batch_effect[of "set \<circ> processed_words \<circ> fst" complete "\<lambda>_. False" "\<lambda>_. True", OF procF _ b1]
      by auto
    have t1: "trace w1 = trace w @ map (\<lambda>(word, flags). Dispatch word flags)
                 (filter (\<lambda>(word, flags). word \<notin> ?P) (take bs xs))
               @ [SaveProgress (mk (bld w1) (length r1))]"
      and d1: "disk w1 = Snapshot (mk (bld w1) (length r1))"
      using b1 by (auto simp: run_batch_eq Let_def)
    from 1(1)[rule_format, OF len rest]
    obtain ws where
      lws: "length ws = total_batches bs (drop bs xs)" and
      tr: "trace w' = trace w1 @ concat (map (\<lambda>n.
                 map (\<lambda>(word, flags). Dispatch word flags)
                   (filter (\<lambda>(word, flags). word \<notin> set (processed_words (bld w1)) \<union> fst ` set (take (n * bs) (drop bs xs)))
                      (batch_at bs n (drop bs xs)))
                 @ [SaveProgress (mk (bld (fst (ws ! n))) (length (snd (ws ! n))))]) [0..<length ws])" and
      pr: "\<forall>n<length ws.
                 batches_loop (run_batch complete mk) bs (tl scheds) (take (Suc n * bs) (drop bs xs)) (w1, r1) = ws ! n
                 \<and> disk (fst (ws ! n)) = Snapshot (mk (bld (fst (ws ! n))) (length (snd (ws ! n))))" and
      la: "drop bs xs \<noteq> [] \<longrightarrow> last ws = (w', results')"
      by (elim exE conjE)
    let ?ws = "(w1, r1) # ws"
    have keys: "\<And>n. fst ` set (take bs xs) \<union> fst ` set (take (n * bs) (drop bs xs))
                  = fst ` set (take (Suc n * bs) xs)"
    proof -
      fix n
      have "take (Suc n * bs) xs = take bs xs @ take (n * bs) (drop bs xs)"
        by (simp add: take_add)
      then show "fst ` set (take bs xs) \<union> fst ` set (take (n * bs) (drop bs xs))
                  = fst ` set (take (Suc n * bs) xs)" by (simp add: image_Un)
    qed
    have slice: "\<And>n. batch_at bs n (drop bs xs) = batch_at bs (Suc n) xs"
      by (simp add: batch_at_def add.commute)
    have c1: "length ?ws = total_batches bs xs"
      using lws total_batches_step[OF False bs] by simp
    define g' :: "nat \<Rightarrow> 'r event list" where "g' = (\<lambda>n.
                 map (\<lambda>(word, flags). Dispatch word flags)
                   (filter (\<lambda>(word, flags). word \<notin> set (processed_words (bld w1)) \<union> fst ` set (take (n * bs) (drop bs xs)))
                      (batch_at bs n (drop bs xs)))
                 @ [SaveProgress (mk (bld (fst (ws ! n))) (length (snd (ws ! n))))])"
    define g :: "nat \<Rightarrow> 'r event list" where "g = (\<lambda>n.
                 map (\<lambda>(word, flags). Dispatch word flags)
                   (filter (\<lambda>(word, flags). word \<notin> ?P \<union> fst ` set (take (n * bs) xs))
                      (batch_at bs n xs))
                 @ [SaveProgress (mk (bld (fst (?ws ! n))) (length (snd (?ws ! n))))])"
    have gS: "g (Suc n) = g' n" for n
      unfolding g_def g'_def slice p1 keys[of n, symmetric] Un_assoc nth_Cons_Suc ..
    have g0: "g 0 = map (\<lambda>(word, flags). Dispatch word flags)
                 (filter (\<lambda>(word, flags). word \<notin> ?P) (take bs xs))
               @ [SaveProgress (mk (bld w1) (length r1))]"
      by (simp add: g_def batch_at_def)
    have "trace w' = trace w @ g 0 @ concat (map g' [0..<length ws])"
      using tr t1 by (simp add: g0 g'_def)
    also have "\<dots> = trace w @ concat (map g [0..<length ?ws])"
      by (simp add: map_upt_Suc gS del: upt_Suc)
    finally have c2: "trace w' = trace w @ concat (map (\<lambda>n.
                 map (\<lambda>(word, flags). Dispatch word flags)
                   (filter (\<lambda>(word, flags). word \<notin> ?P \<union> fst ` set (take (n * bs) xs))
                      (batch_at bs n xs))
                 @ [SaveProgress (mk (bld (fst (?ws ! n))) (length (snd (?ws ! n))))]) [0..<length ?ws])"
      unfolding g_def .
    have first: "take bs xs \<noteq> []" using False bs by simp
    have c3: "\<forall>n<length ?ws.
                 batches_loop (run_batch complete mk) bs scheds (take (Suc n * bs) xs) (w, results) = ?ws ! n
                 \<and> disk (fst (?ws ! n)) = Snapshot (mk (bld (fst (?ws ! n))) (length (snd (?ws ! n))))"
    proof (intro allI impI)
      fix n assume n: "n < length ?ws"
      have ne: "take (Suc n * bs) xs \<noteq> []" using False bs by simp
      have hd: "take bs (take (Suc n * bs) xs) = take bs xs" by (simp add: min_def)
      have tl: "drop bs (take (Suc n * bs) xs) = take (n * bs) (drop bs xs)"
        by (simp add: drop_take)
      have step: "batches_loop (run_batch complete mk) bs scheds (take (Suc n * bs) xs) (w, results)
            = batches_loop (run_batch complete mk) bs (tl scheds) (take (n * bs) (drop bs xs)) (w1, r1)"
        using ne bs by (subst batches_loop_unfold) (simp only: hd tl b1, simp)
      show "batches_loop (run_batch complete mk) bs scheds (take (Suc n * bs) xs) (w, results) = ?ws ! n
                 \<and> disk (fst (?ws ! n)) = Snapshot (mk (bld (fst (?ws ! n))) (length (snd (?ws ! n))))"
      proof (cases n)
        case 0
        have "batches_loop (run_batch complete mk) bs (tl scheds) (take (0 * bs) (drop bs xs)) (w1, r1) = (w1, r1)"
          by (subst batches_loop_unfold) simp
        then show ?thesis using step d1 0 by simp
      next
        case (Suc m)
        then have "m < length ws" using n by simp
        with pr have "batches_loop (run_batch complete mk) bs (tl scheds) (take (Suc m * bs) (drop bs xs)) (w1, r1) = ws ! m
                 \<and> disk (fst (ws ! m)) = Snapshot (mk (bld (fst (ws ! m))) (length (snd (ws ! m))))" by blast
        then show ?thesis using step Suc by simp
      qed
    qed
    have c4: "last ?ws = (w', results')"
    proof (cases "drop bs xs = []")
      case True
      then have "ws = []" using lws bs by (simp add: total_batches_def)
      moreover have "w' = w1 \<and> results' = r1"
        using rest True by (simp add: batches_loop_unfold[of _ _ _ "[]"])
      ultimately show ?thesis by simp
    next
      case False
      then have "ws \<noteq> []" using lws total_batches_step[OF False bs] by auto
      with False la show ?thesis by simp
    qed
    show ?thesis using False by (intro exI[of _ ?ws] conjI c1 c2 c3) (simp only: c4 simp_thms)
  qed
qed

section \<open>One finished future\<close>



lemma complete_google_proc:
  "set (processed_words (fst (complete_google gt st (k, f)))) = insert k (set (processed_words (fst st)))"
  by (cases st) (auto simp: complete_google_def Let_def split: outcome.splits prod.splits)

lemma complete_google_trans:
  "fst ` set (translations_dict (fst (complete_google gt st (k, f)))) =
     (fst ` set (translations_dict (fst st)) - {x. x = k \<and> False}) \<union> {x. x = k \<and> ok_google gt k}"
  by (cases st) (auto simp: complete_google_def ok_google_def Let_def split: outcome.splits prod.splits)

lemma complete_google_prob:
  "set (problematic_words (fst (complete_google gt st (k, f)))) =
     (set (problematic_words (fst st)) - {x. x = k \<and> ok_google gt k}) \<union> {x. x = k \<and> \<not> ok_google gt k}"
  by (cases st) (auto simp: complete_google_def ok_google_def Let_def split: outcome.splits prod.splits)

lemma complete_google_results:
  "fst ` set (snd (complete_google gt st (k, f))) =
     (fst ` set (snd st) - {x. x = k \<and> False}) \<union> {x. x = k \<and> ok_google gt k}"
  by (cases st) (auto simp: complete_google_def ok_google_def Let_def split: outcome.splits prod.splits)

lemma process_word_glosbe_snd:
  "snd (process_word_glosbe gt gs b k) = snd (process_word_glosbe gt gs init_builder k)"
  by (auto simp: process_word_glosbe_def split: outcome.splits)

lemma complete_glosbe_proc:
  "set (processed_words (fst (complete_glosbe gt gs st (k, f)))) = insert k (set (processed_words (fst st)))"
  by (cases st) (auto simp: complete_glosbe_def process_word_glosbe_def Let_def split: outcome.splits prod.splits)

lemma complete_glosbe_trans:
  "fst ` set (translations_dict (fst (complete_glosbe gt gs st (k, f)))) =
     (fst ` set (translations_dict (fst st)) - {x. x = k \<and> False}) \<union> {x. x = k \<and> ok_glosbe gt gs k}"
  by (cases st) (auto simp: complete_glosbe_def ok_glosbe_def process_word_glosbe_def Let_def truthy_def
      split: outcome.splits prod.splits option.splits)

lemma complete_glosbe_prob:
  "set (problematic_words (fst (complete_glosbe gt gs st (k, f)))) =
     (set (problematic_words (fst st)) - {x. x = k \<and> False}) \<union> {x. x = k \<and> \<not> ok_glosbe gt gs k}"
  by (cases st) (auto simp: complete_glosbe_def ok_glosbe_def process_word_glosbe_def Let_def truthy_def
      split: outcome.splits prod.splits option.splits)

lemma complete_glosbe_results:
  "fst ` set (snd (complete_glosbe gt gs st (k, f))) =
     (fst ` set (snd st) - {x. x = k \<and> False}) \<union> {x. x = k \<and> ok_glosbe gt gs k}"
  by (cases st) (auto simp: complete_glosbe_def ok_glosbe_def process_word_glosbe_def Let_def truthy_def
      split: outcome.splits prod.splits option.splits)

section \<open>The work list and the run of \<open>process_words\<close>\<close>

lemma word_to_flags_keys_aux:
  "fst ` set (foldl (\<lambda>d (word, flags). dict_set word flags d) d0 l) = fst ` set d0 \<union> fst ` set l"
  by (induction l arbitrary: d0) (auto simp: case_prod_unfold)

lemma dict_contains_word_to_flags [simp]:
  "dict_contains word (word_to_flags pairs) \<longleftrightarrow> word \<in> fst ` set pairs"
  by (simp add: dict_contains_def word_to_flags_def word_to_flags_keys_aux)

lemma retry_keys:
  "map fst (problematic_to_retry ps b pairs) =
     filter (\<lambda>word. word \<in> fst ` set pairs) (pick ps (problematic_words b))"
  by (simp add: problematic_to_retry_def comp_def)

lemma regular_keys:
  "map fst (regular_words_to_process b pairs) =
     filter (\<lambda>k. k \<notin> set (processed_words b) \<and> k \<notin> set (problematic_words b)) (map fst pairs)"
  by (simp add: regular_words_to_process_def map_fst_filter_keys)

lemma load_progress_google_distinct:
  "load_progress_google pj init_builder = Inr b0 \<Longrightarrow>
     distinct (processed_words b0) \<and> distinct (problematic_words b0)"
  by (cases pj) (auto simp: load_progress_google_def init_builder_def set_of_list_def)

lemma load_progress_glosbe_distinct:
  "load_progress_glosbe pj init_builder = Inr b0 \<Longrightarrow>
     distinct (processed_words b0) \<and> distinct (problematic_words b0)"
  by (cases pj) (auto simp: load_progress_glosbe_def init_builder_def set_of_list_def)

lemma google_work_list_distinct:
  assumes "distinct (problematic_words b)" "distinct (map fst pairs)"
  shows "distinct (map fst (problematic_to_retry ps b pairs @ regular_words_to_process b pairs))"
  using assms by (auto simp: retry_keys regular_keys)

lemma google_work_list_keys:
  "fst ` set (problematic_to_retry ps b pairs @ regular_words_to_process b pairs) =
     (set (problematic_words b) \<inter> fst ` set pairs)
     \<union> {k \<in> fst ` set pairs. k \<notin> set (processed_words b) \<and> k \<notin> set (problematic_words b)}"
proof -
  have "fst ` set (problematic_to_retry ps b pairs @ regular_words_to_process b pairs) =
        set (map fst (problematic_to_retry ps b pairs)) \<union> set (map fst (regular_words_to_process b pairs))"
    by (simp add: image_Un)
  then show ?thesis unfolding retry_keys regular_keys by auto
qed

lemma process_words_google_summary:
  assumes bs: "0 < batch_size"
  shows "\<exists>w' r. process_words_google gt scheds xs batch_size w = Inr (w', r)
     \<and> set (processed_words (bld w')) = set (processed_words (bld w)) \<union> fst ` set xs
     \<and> fst ` set (translations_dict (bld w')) = fst ` set (translations_dict (bld w))
          \<union> {k \<in> fst ` set xs - set (processed_words (bld w)). ok_google gt k}
     \<and> set (problematic_words (bld w')) =
          (set (problematic_words (bld w)) - {k \<in> fst ` set xs - set (processed_words (bld w)). ok_google gt k})
          \<union> {k \<in> fst ` set xs - set (processed_words (bld w)). \<not> ok_google gt k}
     \<and> fst ` set r = {k \<in> fst ` set xs - set (processed_words (bld w)). ok_google gt k}
     \<and> (distinct (map fst xs) \<longrightarrow> dispatched (trace w') =
           dispatched (trace w) @ filter (\<lambda>k. k \<notin> set (processed_words (bld w))) (map fst xs))
     \<and> (xs \<noteq> [] \<longrightarrow> disk w' = Snapshot (progress_data_google (bld w') (length r)))
     \<and> (xs = [] \<longrightarrow> w' = w)"
proof -
  let ?loop = "batches_loop (run_batch (complete_google gt) progress_data_google) (nat batch_size) scheds xs (w, [])"
  obtain w' r where l: "?loop = (w', r)" by (cases ?loop)
  have nb: "0 < nat batch_size" using bs by simp
  have pw: "process_words_google gt scheds xs batch_size w = Inr (w', r)"
    using bs l by (simp add: process_words_google_def)
  note eff = loop_effect[where complete="complete_google gt", OF complete_google_proc _ _ nb l]
  have 1: "set (processed_words (bld w')) = set (processed_words (bld w)) \<union> fst ` set xs"
    using eff[of "\<lambda>st. fst ` set (snd st)" "\<lambda>_. False" "ok_google gt", OF complete_google_results]
    by simp
  have 2: "fst ` set (translations_dict (bld w')) = fst ` set (translations_dict (bld w))
          \<union> {k \<in> fst ` set xs - set (processed_words (bld w)). ok_google gt k}"
    using eff[of "\<lambda>st. fst ` set (translations_dict (fst st))" "\<lambda>_. False" "ok_google gt", OF complete_google_trans]
    by simp
  have 3: "set (problematic_words (bld w')) =
          (set (problematic_words (bld w)) - {k \<in> fst ` set xs - set (processed_words (bld w)). ok_google gt k})
          \<union> {k \<in> fst ` set xs - set (processed_words (bld w)). \<not> ok_google gt k}"
    using eff[of "\<lambda>st. set (problematic_words (fst st))" "ok_google gt" "\<lambda>k. \<not> ok_google gt k", OF complete_google_prob]
    by simp
  have 4: "fst ` set r = {k \<in> fst ` set xs - set (processed_words (bld w)). ok_google gt k}"
    using eff[of "\<lambda>st. fst ` set (snd st)" "\<lambda>_. False" "ok_google gt", OF complete_google_results]
    by simp
  have 5: "distinct (map fst xs) \<longrightarrow> dispatched (trace w') =
           dispatched (trace w) @ filter (\<lambda>k. k \<notin> set (processed_words (bld w))) (map fst xs)"
    using loop_dispatched[where complete="complete_google gt", OF complete_google_proc nb l] by blast
  from loop_trace[where complete="complete_google gt", OF complete_google_proc nb l]
  obtain cs where "xs \<noteq> [] \<longrightarrow> last cs = (bld w', length r)
                  \<and> disk w' = Snapshot (progress_data_google (bld w') (length r))"
     and "xs = [] \<longrightarrow> w' = w \<and> r = []"
    by (elim exE conjE)
  then have 6: "xs \<noteq> [] \<longrightarrow> disk w' = Snapshot (progress_data_google (bld w') (length r))"
    and 7: "xs = [] \<longrightarrow> w' = w" by simp_all
  show ?thesis
    by (intro exI[of _ w'] exI[of _ r] conjI pw 1 2 3 4 5 6 7)
qed

lemma process_words_glosbe_summary:
  assumes bs: "0 < batch_size"
  shows "\<exists>w' r. process_words_glosbe gt gs scheds xs batch_size w = Inr (w', r)
     \<and> set (processed_words (bld w')) = set (processed_words (bld w)) \<union> fst ` set xs
     \<and> fst ` set (translations_dict (bld w')) = fst ` set (translations_dict (bld w))
          \<union> {k \<in> fst ` set xs - set (processed_words (bld w)). ok_glosbe gt gs k}
     \<and> set (problematic_words (bld w')) =
          set (problematic_words (bld w))
          \<union> {k \<in> fst ` set xs - set (processed_words (bld w)). \<not> ok_glosbe gt gs k}
     \<and> fst ` set r = {k \<in> fst ` set xs - set (processed_words (bld w)). ok_glosbe gt gs k}
     \<and> (distinct (map fst xs) \<longrightarrow> dispatched (trace w') =
           dispatched (trace w) @ filter (\<lambda>k. k \<notin> set (processed_words (bld w))) (map fst xs))
     \<and> (xs \<noteq> [] \<longrightarrow> disk w' = Snapshot (progress_data_glosbe (bld w') (length r)))
     \<and> (xs = [] \<longrightarrow> w' = w)"
proof -
  let ?loop = "batches_loop (run_batch (complete_glosbe gt gs) progress_data_glosbe) (nat batch_size) scheds xs (w, [])"
  obtain w' r where l: "?loop = (w', r)" by (cases ?loop)
  have nb: "0 < nat batch_size" using bs by simp
  have pw: "process_words_glosbe gt gs scheds xs batch_size w = Inr (w', r)"
    using bs l by (simp add: process_words_glosbe_def)
  note eff = loop_effect[where complete="complete_glosbe gt gs", OF complete_glosbe_proc _ _ nb l]
  have 1: "set (processed_words (bld w')) = set (processed_words (bld w)) \<union> fst ` set xs"
    using eff[of "\<lambda>st. fst ` set (snd st)" "\<lambda>_. False" "ok_glosbe gt gs", OF complete_glosbe_results]
    by simp
  have 2: "fst ` set (translations_dict (bld w')) = fst ` set (translations_dict (bld w))
          \<union> {k \<in> fst ` set xs - set (processed_words (bld w)). ok_glosbe gt gs k}"
    using eff[of "\<lambda>st. fst ` set (translations_dict (fst st))" "\<lambda>_. False" "ok_glosbe gt gs", OF complete_glosbe_trans]
    by simp
  have 3: "set (problematic_words (bld w')) =
          set (problematic_words (bld w))
          \<union> {k \<in> fst ` set xs - set (processed_words (bld w)). \<not> ok_glosbe gt gs k}"
    using eff[of "\<lambda>st. set (problematic_words (fst st))" "\<lambda>_. False" "\<lambda>k. \<not> ok_glosbe gt gs k", OF complete_glosbe_prob]
    by simp
  have 4: "fst ` set r = {k \<in> fst ` set xs - set (processed_words (bld w)). ok_glosbe gt gs k}"
    using eff[of "\<lambda>st. fst ` set (snd st)" "\<lambda>_. False" "ok_glosbe gt gs", OF complete_glosbe_results]
    by simp
  have 5: "distinct (map fst xs) \<longrightarrow> dispatched (trace w') =
           dispatched (trace w) @ filter (\<lambda>k. k \<notin> set (processed_words (bld w))) (map fst xs)"
    using loop_dispatched[where complete="complete_glosbe gt gs", OF complete_glosbe_proc nb l] by blast
  from loop_trace[where complete="complete_glosbe gt gs", OF complete_glosbe_proc nb l]
  obtain cs where "xs \<noteq> [] \<longrightarrow> last cs = (bld w', length r)
                  \<and> disk w' = Snapshot (progress_data_glosbe (bld w') (length r))"
     and "xs = [] \<longrightarrow> w' = w \<and> r = []"
    by (elim exE conjE)
  then have 6: "xs \<noteq> [] \<longrightarrow> disk w' = Snapshot (progress_data_glosbe (bld w') (length r))"
    and 7: "xs = [] \<longrightarrow> w' = w" by simp_all
  show ?thesis
    by (intro exI[of _ w'] exI[of _ r] conjI pw 1 2 3 4 5 6 7)
qed

section \<open>The run of \<open>main\<close>\<close>

lemma load_word_list_Inr_distinct:
  "load_word_list wl = Inr pairs \<Longrightarrow> distinct (map fst pairs)"
  by (cases wl) (auto simp: load_word_list_def unique_loop_keys[of "[]" "[]", simplified])

lemma main_google_summary:
  assumes lp: "load_progress_google pj init_builder = Inr b0"
      and lw: "load_word_list file = Inr pairs"
  shows "\<exists>w r. main_google gt ps scheds file pj = Inr (w, r)
     \<and> set (processed_words (bld w)) = set (processed_words b0) \<union> fst ` set pairs
     \<and> fst ` set (translations_dict (bld w)) = fst ` set (translations_dict b0)
          \<union> {k \<in> fst ` set pairs - set (processed_words b0). ok_google gt k}
     \<and> set (problematic_words (bld w)) =
          (set (problematic_words b0) - {k \<in> fst ` set pairs - set (processed_words b0). ok_google gt k})
          \<union> {k \<in> fst ` set pairs - set (processed_words b0). \<not> ok_google gt k}
     \<and> dispatched (trace w) = filter (\<lambda>k. k \<notin> set (processed_words b0))
           (map fst (problematic_to_retry ps b0 pairs @ regular_words_to_process b0 pairs))
     \<and> (\<not> fst ` set pairs \<subseteq> set (processed_words b0) \<longrightarrow>
           fst ` set r = {k \<in> fst ` set pairs - set (processed_words b0). ok_google gt k})
     \<and> (dispatched (trace w) \<noteq> [] \<longrightarrow> disk w = Snapshot (progress_data_google (bld w) (length r)))
     \<and> (dispatched (trace w) = [] \<longrightarrow> set (processed_words (bld w)) = set (processed_words b0))
     \<and> set (dispatched (trace w)) = fst ` set pairs - set (processed_words b0)
     \<and> distinct (dispatched (trace w))"
proof -
  let ?wtp = "problematic_to_retry ps b0 pairs @ regular_words_to_process b0 pairs"
  let ?w0 = "\<lparr>bld = b0, disk = pj, trace = []\<rparr> :: (pystr \<times> pystr) world"
  let ?P = "set (processed_words b0)"
  have dist: "distinct (map fst ?wtp)"
    using load_progress_google_distinct[OF lp] load_word_list_Inr_distinct[OF lw]
    by (intro google_work_list_distinct) simp_all
  have keys: "fst ` set ?wtp - ?P = fst ` set pairs - ?P" "?P \<union> fst ` set ?wtp = ?P \<union> fst ` set pairs"
    unfolding google_work_list_keys by auto
  show ?thesis
  proof (cases "?wtp = []")
    case True
    have sub: "fst ` set pairs - ?P = {}"
      using keys(1) True by simp
    have wtp: "map fst ?wtp = []" using True by simp
    define r0 where "r0 = map (\<lambda>word. (word, (dict_get (translations_dict b0) word [],
                                                      dict_get (word_to_flags pairs) word [])))
                                  (filter (\<lambda>word. dict_contains word (word_to_flags pairs))
                                     (map fst (translations_dict b0)))"
    define w1 where "w1 = ?w0\<lparr>trace := [SaveProblematic (problematic_words b0), SaveYomichan r0]\<rparr>"
    have m: "main_google gt ps scheds file pj = Inr (w1, r0)"
      using True by (simp add: main_google_def lp lw Let_def w1_def r0_def del: dict_contains_word_to_flags)
    have b: "bld w1 = b0" and t: "dispatched (trace w1) = []" by (simp_all add: w1_def)
    have 1: "set (processed_words (bld w1)) = ?P \<union> fst ` set pairs" using sub b by auto
    have 2: "fst ` set (translations_dict (bld w1)) = fst ` set (translations_dict b0)
          \<union> {k \<in> fst ` set pairs - ?P. ok_google gt k}" unfolding sub b by simp
    have 3: "set (problematic_words (bld w1)) =
          (set (problematic_words b0) - {k \<in> fst ` set pairs - ?P. ok_google gt k})
          \<union> {k \<in> fst ` set pairs - ?P. \<not> ok_google gt k}" unfolding sub b by simp
    have 4: "dispatched (trace w1) = filter (\<lambda>k. k \<notin> ?P) (map fst ?wtp)"
      unfolding t wtp by simp
    have 5: "\<not> fst ` set pairs \<subseteq> ?P \<longrightarrow>
           fst ` set r0 = {k \<in> fst ` set pairs - ?P. ok_google gt k}" using sub by blast
    have 6: "dispatched (trace w1) \<noteq> [] \<longrightarrow> disk w1 = Snapshot (progress_data_google (bld w1) (length r0))"
      using t by simp
    have 7: "dispatched (trace w1) = [] \<longrightarrow> set (processed_words (bld w1)) = ?P" using b by simp
    have 8: "set (dispatched (trace w1)) = fst ` set pairs - ?P" using t sub by simp
    have 9: "distinct (dispatched (trace w1))" using t by simp
    show ?thesis by (intro exI[of _ w1] exI[of _ r0] conjI m 1 2 3 4 5 6 7 8 9)
  next
    case False
    have h: "0 < (100::int)" by simp
    from process_words_google_summary[OF h, where gt=gt and scheds=scheds and xs="?wtp" and w="?w0"]
    obtain w' r where pw: "process_words_google gt scheds ?wtp 100 ?w0 = Inr (w', r)"
      and p1: "set (processed_words (bld w')) = set (processed_words (bld ?w0)) \<union> fst ` set ?wtp"
      and p2: "fst ` set (translations_dict (bld w')) = fst ` set (translations_dict (bld ?w0))
          \<union> {k \<in> fst ` set ?wtp - set (processed_words (bld ?w0)). ok_google gt k}"
      and p3: "set (problematic_words (bld w')) =
          (set (problematic_words (bld ?w0)) - {k \<in> fst ` set ?wtp - set (processed_words (bld ?w0)). ok_google gt k})
          \<union> {k \<in> fst ` set ?wtp - set (processed_words (bld ?w0)). \<not> ok_google gt k}"
      and p4: "fst ` set r = {k \<in> fst ` set ?wtp - set (processed_words (bld ?w0)). ok_google gt k}"
      and p5: "distinct (map fst ?wtp) \<longrightarrow> dispatched (trace w') =
           dispatched (trace ?w0) @ filter (\<lambda>k. k \<notin> set (processed_words (bld ?w0))) (map fst ?wtp)"
      and p6: "?wtp \<noteq> [] \<longrightarrow> disk w' = Snapshot (progress_data_google (bld w') (length r))"
      by (elim exE conjE)
    have b0: "bld ?w0 = b0" "trace ?w0 = []" by simp_all
    define w1 where "w1 = w'\<lparr>trace := trace w' @ [SaveProblematic (problematic_words (bld w')), SaveYomichan r]\<rparr>"
    have m: "main_google gt ps scheds file pj = Inr (w1, r)"
      using False pw by (simp add: main_google_def lp lw Let_def w1_def)
    have b: "bld w1 = bld w'" "disk w1 = disk w'" and t: "dispatched (trace w1) = dispatched (trace w')"
      by (simp_all add: w1_def)
    have 1: "set (processed_words (bld w1)) = ?P \<union> fst ` set pairs"
      using p1 unfolding b b0 keys .
    have 2: "fst ` set (translations_dict (bld w1)) = fst ` set (translations_dict b0)
          \<union> {k \<in> fst ` set pairs - ?P. ok_google gt k}"
      using p2 unfolding b b0 keys .
    have 3: "set (problematic_words (bld w1)) =
          (set (problematic_words b0) - {k \<in> fst ` set pairs - ?P. ok_google gt k})
          \<union> {k \<in> fst ` set pairs - ?P. \<not> ok_google gt k}"
      using p3 unfolding b b0 keys .
    have 4: "dispatched (trace w1) = filter (\<lambda>k. k \<notin> ?P) (map fst ?wtp)"
      using p5 dist unfolding t b0 by simp
    have 5: "\<not> fst ` set pairs \<subseteq> ?P \<longrightarrow>
           fst ` set r = {k \<in> fst ` set pairs - ?P. ok_google gt k}"
      using p4 unfolding b0 keys by simp
    have 6: "dispatched (trace w1) \<noteq> [] \<longrightarrow> disk w1 = Snapshot (progress_data_google (bld w1) (length r))"
      using p6 False unfolding b by simp
    have 7: "dispatched (trace w1) = [] \<longrightarrow> set (processed_words (bld w1)) = ?P"
    proof
      assume "dispatched (trace w1) = []"
      then have "filter (\<lambda>k. k \<notin> ?P) (map fst ?wtp) = []" using 4 by simp
      then have "fst ` set ?wtp \<subseteq> ?P" by (auto simp: filter_empty_conv)
      then have "fst ` set pairs - ?P = {}" using keys(1) by blast
      then show "set (processed_words (bld w1)) = ?P" using 1 by blast
    qed
    have "set (filter (\<lambda>k. k \<notin> ?P) (map fst ?wtp)) = fst ` set ?wtp - ?P"
      by (simp only: set_filter set_map) blast
    then have 8: "set (dispatched (trace w1)) = fst ` set pairs - ?P"
      unfolding 4 keys(1) .
    have 9: "distinct (dispatched (trace w1))" unfolding 4 by (rule distinct_filter[OF dist])
    show ?thesis by (intro exI[of _ w1] exI[of _ r] conjI m 1 2 3 4 5 6 7 8 9)
  qed
qed

lemma main_glosbe_summary:
  assumes lp: "load_progress_glosbe pj init_builder = Inr b0"
      and lw: "load_word_list file = Inr pairs"
  shows "\<exists>w r. main_glosbe gt gs scheds file pj = Inr (w, r)
     \<and> set (processed_words (bld w)) = set (processed_words b0) \<union> fst ` set pairs
     \<and> fst ` set (translations_dict (bld w)) = fst ` set (translations_dict b0)
          \<union> {k \<in> fst ` set pairs - set (processed_words b0). ok_glosbe gt gs k}
     \<and> set (problematic_words (bld w)) = set (problematic_words b0)
          \<union> {k \<in> fst ` set pairs - set (processed_words b0). \<not> ok_glosbe gt gs k}
     \<and> dispatched (trace w) = filter (\<lambda>k. k \<notin> set (processed_words b0)) (map fst pairs)
     \<and> fst ` set r = {k \<in> fst ` set pairs - set (processed_words b0). ok_glosbe gt gs k}
     \<and> (dispatched (trace w) \<noteq> [] \<longrightarrow> disk w = Snapshot (progress_data_glosbe (bld w) (length r)))
     \<and> (dispatched (trace w) = [] \<longrightarrow> set (processed_words (bld w)) = set (processed_words b0))
     \<and> set (dispatched (trace w)) = fst ` set pairs - set (processed_words b0)
     \<and> distinct (dispatched (trace w))"
proof -
  let ?P = "set (processed_words b0)"
  let ?wtp = "filter (\<lambda>(word, flags). word \<notin> ?P) pairs"
  let ?w0 = "\<lparr>bld = b0, disk = pj, trace = []\<rparr> :: (pystr \<times> pystr \<times> pystr list) world"
  have dp: "distinct (map fst pairs)" by (rule load_word_list_Inr_distinct[OF lw])
  have mk: "map fst ?wtp = filter (\<lambda>k. k \<notin> ?P) (map fst pairs)" by (rule map_fst_filter_keys)
  have dist: "distinct (map fst ?wtp)" unfolding mk using dp by simp
  have keys0: "fst ` set ?wtp = fst ` set pairs - ?P"
    using arg_cong[OF mk, of set] by auto
  have keys: "fst ` set ?wtp - ?P = fst ` set pairs - ?P" "?P \<union> fst ` set ?wtp = ?P \<union> fst ` set pairs"
    unfolding keys0 by auto
  have ff: "filter (\<lambda>k. k \<notin> ?P) (map fst ?wtp) = filter (\<lambda>k. k \<notin> ?P) (map fst pairs)"
    unfolding mk by simp
  show ?thesis
  proof (cases "?wtp = []")
    case True
    have sub: "fst ` set pairs - ?P = {}"
      using keys0 True by simp
    have wtp: "filter (\<lambda>k. k \<notin> ?P) (map fst pairs) = []" using mk True by simp
    define w1 where "w1 = ?w0\<lparr>trace := [SaveProblematic (problematic_words b0), SaveYomichan [],
        SaveProblematic (problematic_words b0), SaveYomichan []]\<rparr>"
    have m: "main_glosbe gt gs scheds file pj = Inr (w1, [])"
      using True by (simp add: main_glosbe_def lp lw Let_def w1_def)
    have b: "bld w1 = b0" and t: "dispatched (trace w1) = []" by (simp_all add: w1_def)
    have 1: "set (processed_words (bld w1)) = ?P \<union> fst ` set pairs" using sub b by auto
    have 2: "fst ` set (translations_dict (bld w1)) = fst ` set (translations_dict b0)
          \<union> {k \<in> fst ` set pairs - ?P. ok_glosbe gt gs k}" unfolding sub b by simp
    have 3: "set (problematic_words (bld w1)) = set (problematic_words b0)
          \<union> {k \<in> fst ` set pairs - ?P. \<not> ok_glosbe gt gs k}" unfolding sub b by simp
    have 4: "dispatched (trace w1) = filter (\<lambda>k. k \<notin> ?P) (map fst pairs)"
      unfolding t wtp by simp
    have 5: "fst ` set ([] :: (pystr, pystr \<times> pystr \<times> pystr list) pydict)
               = {k \<in> fst ` set pairs - ?P. ok_glosbe gt gs k}" unfolding sub by simp
    have 6: "dispatched (trace w1) \<noteq> [] \<longrightarrow> disk w1 = Snapshot (progress_data_glosbe (bld w1) (length ([] :: (pystr, pystr \<times> pystr \<times> pystr list) pydict)))"
      using t by simp
    have 7: "dispatched (trace w1) = [] \<longrightarrow> set (processed_words (bld w1)) = ?P" using b by simp
    have 8: "set (dispatched (trace w1)) = fst ` set pairs - ?P" using t sub by simp
    have 9: "distinct (dispatched (trace w1))" using t by simp
    show ?thesis by (intro exI[of _ w1] exI[of _ "[]"] conjI m 1 2 3 4 5 6 7 8 9)
  next
    case False
    have h: "0 < (25::int)" by simp
    from process_words_glosbe_summary[OF h, where gt=gt and gs=gs and scheds=scheds and xs="?wtp" and w="?w0"]
    obtain w' r where pw: "process_words_glosbe gt gs scheds ?wtp 25 ?w0 = Inr (w', r)"
      and p1: "set (processed_words (bld w')) = set (processed_words (bld ?w0)) \<union> fst ` set ?wtp"
      and p2: "fst ` set (translations_dict (bld w')) = fst ` set (translations_dict (bld ?w0))
          \<union> {k \<in> fst ` set ?wtp - set (processed_words (bld ?w0)). ok_glosbe gt gs k}"
      and p3: "set (problematic_words (bld w')) = set (problematic_words (bld ?w0))
          \<union> {k \<in> fst ` set ?wtp - set (processed_words (bld ?w0)). \<not> ok_glosbe gt gs k}"
      and p4: "fst ` set r = {k \<in> fst ` set ?wtp - set (processed_words (bld ?w0)). ok_glosbe gt gs k}"
      and p5: "distinct (map fst ?wtp) \<longrightarrow> dispatched (trace w') =
           dispatched (trace ?w0) @ filter (\<lambda>k. k \<notin> set (processed_words (bld ?w0))) (map fst ?wtp)"
      and p6: "?wtp \<noteq> [] \<longrightarrow> disk w' = Snapshot (progress_data_glosbe (bld w') (length r))"
      by (elim exE conjE)
    have b0: "bld ?w0 = b0" "trace ?w0 = []" by simp_all
    define w1 where "w1 = w'\<lparr>trace := trace w' @
        [SaveProblematic (problematic_words (bld w')), SaveYomichan r,
         SaveProblematic (problematic_words (bld w')), SaveYomichan r]\<rparr>"
    have m: "main_glosbe gt gs scheds file pj = Inr (w1, r)"
      using False pw by (simp add: main_glosbe_def lp lw Let_def w1_def)
    have b: "bld w1 = bld w'" "disk w1 = disk w'" and t: "dispatched (trace w1) = dispatched (trace w')"
      by (simp_all add: w1_def)
    have 1: "set (processed_words (bld w1)) = ?P \<union> fst ` set pairs"
      using p1 unfolding b b0 keys .
    have 2: "fst ` set (translations_dict (bld w1)) = fst ` set (translations_dict b0)
          \<union> {k \<in> fst ` set pairs - ?P. ok_glosbe gt gs k}"
      using p2 unfolding b b0 keys .
    have 3: "set (problematic_words (bld w1)) = set (problematic_words b0)
          \<union> {k \<in> fst ` set pairs - ?P. \<not> ok_glosbe gt gs k}"
      using p3 unfolding b b0 keys .
    have 4: "dispatched (trace w1) = filter (\<lambda>k. k \<notin> ?P) (map fst pairs)"
      using p5 dist unfolding t b0 ff by simp
    have 5: "fst ` set r = {k \<in> fst ` set pairs - ?P. ok_glosbe gt gs k}"
      using p4 unfolding b0 keys .
    have 6: "dispatched (trace w1) \<noteq> [] \<longrightarrow> disk w1 = Snapshot (progress_data_glosbe (bld w1) (length r))"
      using p6 False unfolding b by simp
    have 7: "dispatched (trace w1) = [] \<longrightarrow> set (processed_words (bld w1)) = ?P"
    proof
      assume "dispatched (trace w1) = []"
      then have "filter (\<lambda>k. k \<notin> ?P) (map fst pairs) = []" using 4 by simp
      then have "fst ` set pairs - ?P = {}" by (auto simp: filter_empty_conv)
      then show "set (processed_words (bld w1)) = ?P" using 1 by blast
    qed
    have 8: "set (dispatched (trace w1)) = fst ` set pairs - ?P"
      unfolding 4 by auto
    have 9: "distinct (dispatched (trace w1))" unfolding 4 using dp by simp
    show ?thesis by (intro exI[of _ w1] exI[of _ r] conjI m 1 2 3 4 5 6 7 8 9)
  qed
qed

section \<open>Loading the progress at the start of a run\<close>

text \<open>
  C7 as stated fails. \<open>load_progress\<close> catches \<open>FileNotFoundError\<close> and nothing else: on a
  progress file that is not a complete JSON document \<open>json.load\<close> raises
  \<open>JSONDecodeError\<close>, and \<open>main\<close>, which calls \<open>load_progress\<close> outside any handler, ends
  with that error before the word list is read. The same run with no progress file goes
  through.
\<close>

theorem load_progress_raises_on_incomplete_file:
  "load_progress_google Incomplete init_builder = Inl JSONDecodeError
   \<and> load_progress_glosbe Incomplete init_builder = Inl JSONDecodeError
   \<and> main_google stub_all [] [] (Some [py ''casa'']) Incomplete = Inl JSONDecodeError
   \<and> main_glosbe stub_all no_phrases [] (Some [py ''casa'']) Incomplete = Inl JSONDecodeError
   \<and> (\<exists>w r. main_google stub_all [] [] (Some [py ''casa'']) Missing = Inr (w, r))
   \<and> (\<exists>w r. main_glosbe stub_all no_phrases [] (Some [py ''casa'']) Missing = Inr (w, r))"
  by (simp add: eval_simps)

text \<open>
  C7 (as amended). With no progress file the builder stays as \<open>__init__\<close> made it, which
  is empty. A progress file that is a JSON object loads whatever fields it lacks: each
  missing field takes its empty default, each present field its value (the arrays as
  sets). In both cases \<open>main\<close> runs to its end on any word list that exists. A progress
  file that is not a complete JSON document is the one case in which \<open>load_progress\<close>
  fails: it raises \<open>JSONDecodeError\<close>, and so does \<open>main\<close>, whatever the word list.
\<close>

theorem load_progress_defaults_or_error:
  "load_progress_glosbe Missing init_builder = Inr init_builder
   \<and> load_progress_google Missing init_builder = Inr init_builder
   \<and> translations_dict init_builder = [] \<and> examples init_builder = []
   \<and> processed_words init_builder = [] \<and> problematic_words init_builder = []
   \<and> (\<exists>b'. load_progress_glosbe (Snapshot d) b = Inr b'
         \<and> translations_dict b' = (case f_translations d of None \<Rightarrow> [] | Some t \<Rightarrow> t)
         \<and> examples b' = (case f_examples d of None \<Rightarrow> [] | Some e \<Rightarrow> e)
         \<and> set (processed_words b') = (case f_processed_words d of None \<Rightarrow> {} | Some l \<Rightarrow> set l)
         \<and> set (problematic_words b') = (case f_problematic_words d of None \<Rightarrow> {} | Some l \<Rightarrow> set l)
         \<and> distinct (processed_words b') \<and> distinct (problematic_words b'))
   \<and> (\<exists>b'. load_progress_google (Snapshot d) b = Inr b'
         \<and> translations_dict b' = (case f_translations d of None \<Rightarrow> [] | Some t \<Rightarrow> t)
         \<and> set (processed_words b') = (case f_processed_words d of None \<Rightarrow> {} | Some l \<Rightarrow> set l)
         \<and> set (problematic_words b') = (case f_problematic_words d of None \<Rightarrow> {} | Some l \<Rightarrow> set l)
         \<and> distinct (processed_words b') \<and> distinct (problematic_words b'))
   \<and> (\<exists>w r. main_google gt ps scheds (Some lines) Missing = Inr (w, r))
   \<and> (\<exists>w r. main_google gt ps scheds (Some lines) (Snapshot d) = Inr (w, r))
   \<and> (\<exists>v q. main_glosbe ht hs scheds (Some lines) Missing = Inr (v, q))
   \<and> (\<exists>v q. main_glosbe ht hs scheds (Some lines) (Snapshot d) = Inr (v, q))
   \<and> (load_progress_google pj b = Inl JSONDecodeError) = (pj = Incomplete)
   \<and> (load_progress_glosbe pj b = Inl JSONDecodeError) = (pj = Incomplete)
   \<and> main_google gt ps scheds wl Incomplete = Inl JSONDecodeError
   \<and> main_glosbe ht hs scheds wl Incomplete = Inl JSONDecodeError"
proof -
  have lw: "load_word_list (Some lines) = Inr (unique_loop [] [] (read_pairs lines))"
    by (simp add: load_word_list_def)
  obtain g0 where g0: "load_progress_google (Snapshot d) init_builder = Inr g0"
    by (simp add: load_progress_google_def)
  obtain l0 where l0: "load_progress_glosbe (Snapshot d) init_builder = Inr l0"
    by (simp add: load_progress_glosbe_def)
  have gm: "load_progress_google Missing init_builder = Inr init_builder"
    by (simp add: load_progress_google_def)
  have lm: "load_progress_glosbe Missing init_builder = Inr init_builder"
    by (simp add: load_progress_glosbe_def)
  have 1: "\<exists>w r. main_google gt ps scheds (Some lines) Missing = Inr (w, r)"
    using main_google_summary[OF gm lw, of gt ps scheds] by (elim exE conjE) (rule exI, rule exI)
  have 2: "\<exists>w r. main_google gt ps scheds (Some lines) (Snapshot d) = Inr (w, r)"
    using main_google_summary[OF g0 lw, of gt ps scheds] by (elim exE conjE) (rule exI, rule exI)
  have 3: "\<exists>v q. main_glosbe ht hs scheds (Some lines) Missing = Inr (v, q)"
    using main_glosbe_summary[OF lm lw, of ht hs scheds] by (elim exE conjE) (rule exI, rule exI)
  have 4: "\<exists>v q. main_glosbe ht hs scheds (Some lines) (Snapshot d) = Inr (v, q)"
    using main_glosbe_summary[OF l0 lw, of ht hs scheds] by (elim exE conjE) (rule exI, rule exI)
  have 5: "(load_progress_google pj b = Inl JSONDecodeError) = (pj = Incomplete)"
    by (cases pj) (simp_all add: load_progress_google_def)
  have 6: "(load_progress_glosbe pj b = Inl JSONDecodeError) = (pj = Incomplete)"
    by (cases pj) (simp_all add: load_progress_glosbe_def)
  have 7: "main_google gt ps scheds wl Incomplete = Inl JSONDecodeError"
    by (simp add: main_google_def load_progress_google_def)
  have 8: "main_glosbe ht hs scheds wl Incomplete = Inl JSONDecodeError"
    by (simp add: main_glosbe_def load_progress_glosbe_def)
  have 0: "load_progress_glosbe Missing init_builder = Inr init_builder
   \<and> load_progress_google Missing init_builder = Inr init_builder
   \<and> translations_dict init_builder = [] \<and> examples init_builder = []
   \<and> processed_words init_builder = [] \<and> problematic_words init_builder = []
   \<and> (\<exists>b'. load_progress_glosbe (Snapshot d) b = Inr b'
         \<and> translations_dict b' = (case f_translations d of None \<Rightarrow> [] | Some t \<Rightarrow> t)
         \<and> examples b' = (case f_examples d of None \<Rightarrow> [] | Some e \<Rightarrow> e)
         \<and> set (processed_words b') = (case f_processed_words d of None \<Rightarrow> {} | Some l \<Rightarrow> set l)
         \<and> set (problematic_words b') = (case f_problematic_words d of None \<Rightarrow> {} | Some l \<Rightarrow> set l)
         \<and> distinct (processed_words b') \<and> distinct (problematic_words b'))
   \<and> (\<exists>b'. load_progress_google (Snapshot d) b = Inr b'
         \<and> translations_dict b' = (case f_translations d of None \<Rightarrow> [] | Some t \<Rightarrow> t)
         \<and> set (processed_words b') = (case f_processed_words d of None \<Rightarrow> {} | Some l \<Rightarrow> set l)
         \<and> set (problematic_words b') = (case f_problematic_words d of None \<Rightarrow> {} | Some l \<Rightarrow> set l)
         \<and> distinct (processed_words b') \<and> distinct (problematic_words b'))"
    by (simp add: load_progress_glosbe_def load_progress_google_def init_builder_def
        set_of_list_def split: option.split)
  from 0 1 2 3 4 5 6 7 8 show ?thesis by (simp only: simp_thms)
qed

section \<open>Resumption\<close>

lemma main_google_Inr:
  assumes "main_google gt ps scheds wl pj = Inr (w, r)"
  obtains b0 pairs where "load_progress_google pj init_builder = Inr b0" "load_word_list wl = Inr pairs"
  using assms
  by (cases "load_progress_google pj init_builder"; cases "load_word_list wl")
     (auto simp: main_google_def)

lemma main_glosbe_Inr:
  assumes "main_glosbe gt gs scheds wl pj = Inr (w, r)"
  obtains b0 pairs where "load_progress_glosbe pj init_builder = Inr b0" "load_word_list wl = Inr pairs"
  using assms
  by (cases "load_progress_glosbe pj init_builder"; cases "load_word_list wl")
     (auto simp: main_glosbe_def)

lemma load_saved_google:
  "load_progress_google (Snapshot (progress_data_google b n)) init_builder = Inr b1 \<Longrightarrow>
   set (processed_words b1) = set (processed_words b)"
  by (auto simp: load_progress_google_def progress_data_google_def set_of_list_def)

lemma load_saved_glosbe:
  "load_progress_glosbe (Snapshot (progress_data_glosbe b n)) init_builder = Inr b1 \<Longrightarrow>
   set (processed_words b1) = set (processed_words b)"
  by (auto simp: load_progress_glosbe_def progress_data_glosbe_def set_of_list_def)

lemma two_runs_google:
  assumes lp: "load_progress_google pj init_builder = Inr b0"
      and m1: "main_google gt ps scheds wl pj = Inr (w1, r1)"
      and m2: "main_google gt' ps' scheds' wl' (disk w1) = Inr (w2, r2)"
  shows "set (dispatched (trace w1)) \<inter> set (processed_words b0) = {}
         \<and> distinct (dispatched (trace w1) @ dispatched (trace w2))"
proof -
  from m1 obtain pairs where lw: "load_word_list wl = Inr pairs" by (rule main_google_Inr)
  from main_google_summary[OF lp lw, of gt ps scheds]
  obtain w r where m: "main_google gt ps scheds wl pj = Inr (w, r)"
    and d: "set (dispatched (trace w)) = fst ` set pairs - set (processed_words b0)"
    and di: "distinct (dispatched (trace w))"
    and p: "set (processed_words (bld w)) = set (processed_words b0) \<union> fst ` set pairs"
    and s: "dispatched (trace w) \<noteq> [] \<longrightarrow> disk w = Snapshot (progress_data_google (bld w) (length r))"
    by (elim exE conjE)
  have eq: "w = w1" "r = r1" using m m1 by simp_all
  note d1 = d[unfolded eq] and di1 = di[unfolded eq] and p1 = p[unfolded eq] and s1 = s[unfolded eq]
  from m2 obtain b1 pairs' where lp2: "load_progress_google (disk w1) init_builder = Inr b1"
    and lw2: "load_word_list wl' = Inr pairs'" by (rule main_google_Inr)
  from main_google_summary[OF lp2 lw2, of gt' ps' scheds']
  obtain w' r' where m': "main_google gt' ps' scheds' wl' (disk w1) = Inr (w', r')"
    and d': "set (dispatched (trace w')) = fst ` set pairs' - set (processed_words b1)"
    and di': "distinct (dispatched (trace w'))"
    by (elim exE conjE)
  have eq': "w' = w2" using m' m2 by simp
  note d2 = d'[unfolded eq'] and di2 = di'[unfolded eq']
  have sub: "set (dispatched (trace w1)) \<subseteq> set (processed_words b1)"
  proof (cases "dispatched (trace w1) = []")
    case True
    then show ?thesis by simp
  next
    case False
    with s1 have "disk w1 = Snapshot (progress_data_google (bld w1) (length r1))" by simp
    with lp2 have "set (processed_words b1) = set (processed_words (bld w1))"
      by (simp add: load_saved_google)
    then show ?thesis using d1 p1 by blast
  qed
  have "set (dispatched (trace w1)) \<inter> set (dispatched (trace w2)) = {}"
    using sub d2 by blast
  moreover have "set (dispatched (trace w1)) \<inter> set (processed_words b0) = {}"
    unfolding d1 by blast
  ultimately show ?thesis using di1 di2 by simp
qed

lemma two_runs_glosbe:
  assumes lp: "load_progress_glosbe pj init_builder = Inr b0"
      and m1: "main_glosbe gt gs scheds wl pj = Inr (w1, r1)"
      and m2: "main_glosbe gt' gs' scheds' wl' (disk w1) = Inr (w2, r2)"
  shows "set (dispatched (trace w1)) \<inter> set (processed_words b0) = {}
         \<and> distinct (dispatched (trace w1) @ dispatched (trace w2))"
proof -
  from m1 obtain pairs where lw: "load_word_list wl = Inr pairs" by (rule main_glosbe_Inr)
  from main_glosbe_summary[OF lp lw, of gt gs scheds]
  obtain w r where m: "main_glosbe gt gs scheds wl pj = Inr (w, r)"
    and d: "set (dispatched (trace w)) = fst ` set pairs - set (processed_words b0)"
    and di: "distinct (dispatched (trace w))"
    and p: "set (processed_words (bld w)) = set (processed_words b0) \<union> fst ` set pairs"
    and s: "dispatched (trace w) \<noteq> [] \<longrightarrow> disk w = Snapshot (progress_data_glosbe (bld w) (length r))"
    by (elim exE conjE)
  have eq: "w = w1" "r = r1" using m m1 by simp_all
  note d1 = d[unfolded eq] and di1 = di[unfolded eq] and p1 = p[unfolded eq] and s1 = s[unfolded eq]
  from m2 obtain b1 pairs' where lp2: "load_progress_glosbe (disk w1) init_builder = Inr b1"
    and lw2: "load_word_list wl' = Inr pairs'" by (rule main_glosbe_Inr)
  from main_glosbe_summary[OF lp2 lw2, of gt' gs' scheds']
  obtain w' r' where m': "main_glosbe gt' gs' scheds' wl' (disk w1) = Inr (w', r')"
    and d': "set (dispatched (trace w')) = fst ` set pairs' - set (processed_words b1)"
    and di': "distinct (dispatched (trace w'))"
    by (elim exE conjE)
  have eq': "w' = w2" using m' m2 by simp
  note d2 = d'[unfolded eq'] and di2 = di'[unfolded eq']
  have sub: "set (dispatched (trace w1)) \<subseteq> set (processed_words b1)"
  proof (cases "dispatched (trace w1) = []")
    case True
    then show ?thesis by simp
  next
    case False
    with s1 have "disk w1 = Snapshot (progress_data_glosbe (bld w1) (length r1))" by simp
    with lp2 have "set (processed_words b1) = set (processed_words (bld w1))"
      by (simp add: load_saved_glosbe)
    then show ?thesis using d1 p1 by blast
  qed
  have "set (dispatched (trace w1)) \<inter> set (dispatched (trace w2)) = {}"
    using sub d2 by blast
  moreover have "set (dispatched (trace w1)) \<inter> set (processed_words b0) = {}"
    unfolding d1 by blast
  ultimately show ?thesis using di1 di2 by simp
qed

text \<open>
  C3. A run never dispatches a word that is in \<open>processed_words\<close> of the progress it
  loaded; and when a second run loads the progress file that a first run left, no word
  is dispatched twice over the two runs, whatever the clients answer, the schedules and
  the word lists of the two runs are. This holds of both programs. (The client's own
  retries inside \<open>get_translation\<close> are outside the model.)
\<close>

theorem resumption_never_redispatches:
  "(load_progress_google pj init_builder = Inr b0
      \<and> main_google gt ps scheds wl pj = Inr (w1, r1)
      \<and> main_google gt' ps' scheds' wl' (disk w1) = Inr (w2, r2)
    \<longrightarrow> set (dispatched (trace w1)) \<inter> set (processed_words b0) = {}
        \<and> distinct (dispatched (trace w1) @ dispatched (trace w2)))
   \<and> (load_progress_glosbe pj init_builder = Inr c0
      \<and> main_glosbe ht hs scheds wl pj = Inr (v1, q1)
      \<and> main_glosbe ht' hs' scheds' wl' (disk v1) = Inr (v2, q2)
    \<longrightarrow> set (dispatched (trace v1)) \<inter> set (processed_words c0) = {}
        \<and> distinct (dispatched (trace v1) @ dispatched (trace v2)))"
proof (intro conjI impI)
  assume "load_progress_google pj init_builder = Inr b0
      \<and> main_google gt ps scheds wl pj = Inr (w1, r1)
      \<and> main_google gt' ps' scheds' wl' (disk w1) = Inr (w2, r2)"
  then show "set (dispatched (trace w1)) \<inter> set (processed_words b0) = {}"
    and "distinct (dispatched (trace w1) @ dispatched (trace w2))"
    using two_runs_google[of pj b0 gt ps scheds wl w1 r1 gt' ps' scheds' wl' w2 r2] by simp_all
next
  assume "load_progress_glosbe pj init_builder = Inr c0
      \<and> main_glosbe ht hs scheds wl pj = Inr (v1, q1)
      \<and> main_glosbe ht' hs' scheds' wl' (disk v1) = Inr (v2, q2)"
  then show "set (dispatched (trace v1)) \<inter> set (processed_words c0) = {}"
    and "distinct (dispatched (trace v1) @ dispatched (trace v2))"
    using two_runs_glosbe[of pj c0 ht hs scheds wl v1 q1 ht' hs' scheds' wl' v2 q2] by simp_all
qed

theorem resumption_never_redispatches_witness:
  "(\<exists>w1 r1 w2 r2.
       main_google stub_casa_agua [] [] (Some scenario_words) Missing = Inr (w1, r1)
     \<and> main_google stub_casa_agua [] [] (Some scenario_words) (disk w1) = Inr (w2, r2)
     \<and> set (dispatched (trace w1)) \<inter> set (processed_words init_builder) = {}
     \<and> distinct (dispatched (trace w1) @ dispatched (trace w2)))
   \<and> (\<exists>v1 q1 v2 q2.
       main_glosbe stub_casa_agua no_phrases [] (Some scenario_words) Missing = Inr (v1, q1)
     \<and> main_glosbe stub_casa_agua no_phrases [] (Some scenario_words) (disk v1) = Inr (v2, q2)
     \<and> set (dispatched (trace v1)) \<inter> set (processed_words init_builder) = {}
     \<and> distinct (dispatched (trace v1) @ dispatched (trace v2)))"
proof -
  have lpg: "load_progress_google Missing init_builder = Inr init_builder"
    by (simp add: load_progress_google_def)
  have lpl: "load_progress_glosbe Missing init_builder = Inr init_builder"
    by (simp add: load_progress_glosbe_def)
  have "\<exists>w1 r1. main_google stub_casa_agua [] [] (Some scenario_words) Missing = Inr (w1, r1)"
    by (simp add: eval_simps)
  then obtain w1 r1 where
    m1: "main_google stub_casa_agua [] [] (Some scenario_words) Missing = Inr (w1, r1)" by (elim exE)
  have "\<exists>w2 r2. main_google stub_casa_agua [] [] (Some scenario_words) (disk w1) = Inr (w2, r2)"
    using m1 by (auto simp: eval_simps)
  then obtain w2 r2 where
    m2: "main_google stub_casa_agua [] [] (Some scenario_words) (disk w1) = Inr (w2, r2)" by (elim exE)
  note t = resumption_never_redispatches[of Missing init_builder stub_casa_agua "[]" "[]"
      "Some scenario_words" w1 r1 stub_casa_agua "[]" "[]" "Some scenario_words" w2 r2]
  have g: "set (dispatched (trace w1)) \<inter> set (processed_words init_builder) = {}
     \<and> distinct (dispatched (trace w1) @ dispatched (trace w2))"
    by (rule t[THEN conjunct1, THEN mp]) (intro conjI lpg m1 m2)
  have "\<exists>v1 q1. main_glosbe stub_casa_agua no_phrases [] (Some scenario_words) Missing = Inr (v1, q1)"
    by (simp add: eval_simps)
  then obtain v1 q1 where
    n1: "main_glosbe stub_casa_agua no_phrases [] (Some scenario_words) Missing = Inr (v1, q1)" by (elim exE)
  have "\<exists>v2 q2. main_glosbe stub_casa_agua no_phrases [] (Some scenario_words) (disk v1) = Inr (v2, q2)"
    using n1 by (auto simp: eval_simps)
  then obtain v2 q2 where
    n2: "main_glosbe stub_casa_agua no_phrases [] (Some scenario_words) (disk v1) = Inr (v2, q2)" by (elim exE)
  note u = resumption_never_redispatches[of Missing _ _ _ "[]"
      "Some scenario_words" _ _ _ _ "[]" "Some scenario_words" _ _
      init_builder stub_casa_agua no_phrases v1 q1 stub_casa_agua no_phrases v2 q2]
  have l: "set (dispatched (trace v1)) \<inter> set (processed_words init_builder) = {}
     \<and> distinct (dispatched (trace v1) @ dispatched (trace v2))"
    by (rule u[THEN conjunct2, THEN mp]) (intro conjI lpl n1 n2)
  have G: "\<exists>w1 r1 w2 r2.
       main_google stub_casa_agua [] [] (Some scenario_words) Missing = Inr (w1, r1)
     \<and> main_google stub_casa_agua [] [] (Some scenario_words) (disk w1) = Inr (w2, r2)
     \<and> set (dispatched (trace w1)) \<inter> set (processed_words init_builder) = {}
     \<and> distinct (dispatched (trace w1) @ dispatched (trace w2))"
    by (intro exI[of _ w1] exI[of _ r1] exI[of _ w2] exI[of _ r2] conjI m1 m2 g[THEN conjunct1] g[THEN conjunct2])
  have L: "\<exists>v1 q1 v2 q2.
       main_glosbe stub_casa_agua no_phrases [] (Some scenario_words) Missing = Inr (v1, q1)
     \<and> main_glosbe stub_casa_agua no_phrases [] (Some scenario_words) (disk v1) = Inr (v2, q2)
     \<and> set (dispatched (trace v1)) \<inter> set (processed_words init_builder) = {}
     \<and> distinct (dispatched (trace v1) @ dispatched (trace v2))"
    by (intro exI[of _ v1] exI[of _ q1] exI[of _ v2] exI[of _ q2] conjI n1 n2 l[THEN conjunct1] l[THEN conjunct2])
  show ?thesis by (intro conjI G L)
qed

section \<open>The order of dispatch\<close>

text \<open>
  What \<open>main\<close> dispatches, in order. Google's program: the words of its retry list that
  are not processed, and then the words of the input that are neither processed nor
  problematic, in input order. Glosbe's program has no retry list: the words of the
  input that are not processed, in input order.
\<close>

lemma google_dispatch_order:
  assumes lp: "load_progress_google pj init_builder = Inr b0"
      and lw: "load_word_list wl = Inr pairs"
      and m1: "main_google gt ps scheds wl pj = Inr (w, r)"
  shows "\<exists>retry. dispatched (trace w) =
            retry @ filter (\<lambda>k. k \<notin> set (processed_words b0) \<and> k \<notin> set (problematic_words b0))
                      (map fst pairs)
          \<and> set retry = {k \<in> fst ` set pairs. k \<in> set (problematic_words b0)
                             \<and> k \<notin> set (processed_words b0)}"
proof -
  from main_google_summary[OF lp lw, of gt ps scheds]
  obtain w' r' where m: "main_google gt ps scheds wl pj = Inr (w', r')"
    and d: "dispatched (trace w') = filter (\<lambda>k. k \<notin> set (processed_words b0))
           (map fst (problematic_to_retry ps b0 pairs @ regular_words_to_process b0 pairs))"
    by (elim exE conjE)
  have eq: "w' = w" using m m1 by simp
  let ?retry = "filter (\<lambda>k. k \<notin> set (processed_words b0)) (map fst (problematic_to_retry ps b0 pairs))"
  have reg: "filter (\<lambda>k. k \<notin> set (processed_words b0)) (map fst (regular_words_to_process b0 pairs))
      = filter (\<lambda>k. k \<notin> set (processed_words b0) \<and> k \<notin> set (problematic_words b0)) (map fst pairs)"
    unfolding regular_keys by (simp add: conj_commute cong: conj_cong)
  have 1: "dispatched (trace w) = ?retry @
      filter (\<lambda>k. k \<notin> set (processed_words b0) \<and> k \<notin> set (problematic_words b0)) (map fst pairs)"
    using d unfolding eq by (simp add: reg)
  have 2: "set ?retry = {k \<in> fst ` set pairs. k \<in> set (problematic_words b0)
                             \<and> k \<notin> set (processed_words b0)}"
    unfolding retry_keys by auto
  from 1 2 show ?thesis by blast
qed

lemma glosbe_dispatch_order:
  assumes lp: "load_progress_glosbe pj init_builder = Inr b0"
      and lw: "load_word_list wl = Inr pairs"
      and m1: "main_glosbe gt gs scheds wl pj = Inr (w, r)"
  shows "dispatched (trace w) = filter (\<lambda>k. k \<notin> set (processed_words b0)) (map fst pairs)"
proof -
  from main_glosbe_summary[OF lp lw, of gt gs scheds]
  obtain w' r' where m: "main_glosbe gt gs scheds wl pj = Inr (w', r')"
    and d: "dispatched (trace w') = filter (\<lambda>k. k \<notin> set (processed_words b0)) (map fst pairs)"
    by (elim exE conjE)
  have eq: "w' = w" using m m1 by simp
  show ?thesis using d unfolding eq .
qed

text \<open>
  A run of Google's program adds every word it has attempted to \<open>processed_words\<close>,
  the failed ones too, so in the progress it leaves every problematic word is also a
  processed one; and \<open>process_words\<close> skips the processed words of its work list. From
  such a progress file no problematic word is dispatched.
\<close>

lemma google_problematic_within_processed:
  assumes lp: "load_progress_google pj init_builder = Inr b0"
      and lw: "load_word_list wl = Inr pairs"
      and m1: "main_google gt ps scheds wl pj = Inr (w, r)"
      and inv: "set (problematic_words b0) \<subseteq> set (processed_words b0)"
  shows "set (problematic_words (bld w)) \<subseteq> set (processed_words (bld w))"
proof -
  from main_google_summary[OF lp lw, of gt ps scheds]
  obtain w' r' where m: "main_google gt ps scheds wl pj = Inr (w', r')"
    and p: "set (processed_words (bld w')) = set (processed_words b0) \<union> fst ` set pairs"
    and q: "set (problematic_words (bld w')) =
          (set (problematic_words b0) - {k \<in> fst ` set pairs - set (processed_words b0). ok_google gt k})
          \<union> {k \<in> fst ` set pairs - set (processed_words b0). \<not> ok_google gt k}"
    by (elim exE conjE)
  have eq: "w' = w" using m m1 by simp
  show ?thesis using inv unfolding p[unfolded eq] q[unfolded eq] by auto
qed

lemma google_never_dispatches_problematic:
  assumes lp: "load_progress_google pj init_builder = Inr b0"
      and lw: "load_word_list wl = Inr pairs"
      and m1: "main_google gt ps scheds wl pj = Inr (w, r)"
      and inv: "set (problematic_words b0) \<subseteq> set (processed_words b0)"
  shows "set (dispatched (trace w)) \<inter> set (problematic_words b0) = {}"
proof -
  from main_google_summary[OF lp lw, of gt ps scheds]
  obtain w' r' where m: "main_google gt ps scheds wl pj = Inr (w', r')"
    and d: "set (dispatched (trace w')) = fst ` set pairs - set (processed_words b0)"
    by (elim exE conjE)
  have eq: "w' = w" using m m1 by simp
  show ?thesis using inv unfolding d[unfolded eq] by auto
qed

text \<open>
  C4 at a progress file the program wrote. The scenario is run by Google's program from
  no progress file: \<open>casa\<close> and \<open>agua\<close> are translated, \<open>xyz123\<close> is not, and the progress
  file lists \<open>xyz123\<close> as problematic and as processed. The program is run again on the
  same word list, now with a client that translates every word. \<open>main\<close> builds the work
  list with \<open>xyz123\<close> first, as the retry of a problematic word, and nothing else; but
  \<open>process_words\<close> drops it as processed, so no word is dispatched, \<open>xyz123\<close> stays
  problematic, and the dictionary is written empty.
\<close>

theorem google_never_retries_problematic:
  "(case main_google stub_casa_agua [] [] (Some scenario_words) Missing of
      Inl e \<Rightarrow> False
    | Inr (w1, r1) \<Rightarrow>
        disk w1 =
          Snapshot \<lparr>f_translations = Some [(py ''casa'', py ''jip''), (py ''agua'', py ''mul'')],
                    f_examples = None,
                    f_processed_words = Some [py ''casa'', py ''xyz123'', py ''agua''],
                    f_problematic_words = Some [py ''xyz123''],
                    f_results_count = Some 2\<rparr>
        \<and> (case load_progress_google (disk w1) init_builder of
              Inl e \<Rightarrow> False
            | Inr b \<Rightarrow>
                problematic_to_retry [] b
                    [(py ''casa'', py ''n''), (py ''xyz123'', []), (py ''agua'', py ''n'')]
                  = [(py ''xyz123'', [])]
                \<and> regular_words_to_process b
                    [(py ''casa'', py ''n''), (py ''xyz123'', []), (py ''agua'', py ''n'')]
                  = [])
        \<and> (case main_google stub_all [] [] (Some scenario_words) (disk w1) of
              Inl e \<Rightarrow> False
            | Inr (w2, r2) \<Rightarrow>
                dispatched (trace w2) = []
                \<and> problematic_words (bld w2) = [py ''xyz123'']
                \<and> translations_dict (bld w2) = [(py ''casa'', py ''jip''), (py ''agua'', py ''mul'')]
                \<and> written (trace w2) = [[]]))"
  by (simp add: eval_simps)

section \<open>Failure isolation\<close>





section \<open>A checkpoint after every batch\<close>

lemma checkpoints_google:
  assumes bs: "0 < batch_size"
  shows "\<exists>w' r ws. process_words_google gt scheds xs batch_size w = Inr (w', r)
     \<and> length ws = total_batches (nat batch_size) xs
     \<and> trace w' = trace w @ concat (map (\<lambda>n.
              map (\<lambda>(word, flags). Dispatch word flags)
                (filter (\<lambda>(word, flags). word \<notin> set (processed_words (bld w))
                                                 \<union> fst ` set (take (n * nat batch_size) xs))
                   (batch_at (nat batch_size) n xs))
              @ [SaveProgress \<lparr>f_translations = Some (translations_dict (bld (fst (ws ! n)))),
                               f_examples = None,
                               f_processed_words = Some (processed_words (bld (fst (ws ! n)))),
                               f_problematic_words = Some (problematic_words (bld (fst (ws ! n)))),
                               f_results_count = Some (length (snd (ws ! n)))\<rparr>]) [0..<length ws])
     \<and> (\<forall>n<length ws.
            process_words_google gt scheds (take (Suc n * nat batch_size) xs) batch_size w
                 = Inr (ws ! n)
            \<and> disk (fst (ws ! n)) =
                 Snapshot \<lparr>f_translations = Some (translations_dict (bld (fst (ws ! n)))),
                           f_examples = None,
                           f_processed_words = Some (processed_words (bld (fst (ws ! n)))),
                           f_problematic_words = Some (problematic_words (bld (fst (ws ! n)))),
                           f_results_count = Some (length (snd (ws ! n)))\<rparr>
            \<and> set (processed_words (bld (fst (ws ! n)))) =
                 set (processed_words (bld w)) \<union> fst ` set (take (Suc n * nat batch_size) xs)
            \<and> fst ` set (translations_dict (bld (fst (ws ! n)))) =
                 fst ` set (translations_dict (bld w))
                 \<union> {k \<in> fst ` set (take (Suc n * nat batch_size) xs) - set (processed_words (bld w)).
                        ok_google gt k}
            \<and> set (problematic_words (bld (fst (ws ! n)))) =
                 (set (problematic_words (bld w))
                    - {k \<in> fst ` set (take (Suc n * nat batch_size) xs) - set (processed_words (bld w)).
                           ok_google gt k})
                 \<union> {k \<in> fst ` set (take (Suc n * nat batch_size) xs) - set (processed_words (bld w)).
                        \<not> ok_google gt k}
            \<and> fst ` set (snd (ws ! n)) =
                 {k \<in> fst ` set (take (Suc n * nat batch_size) xs) - set (processed_words (bld w)).
                      ok_google gt k})
     \<and> (xs \<noteq> [] \<longrightarrow> last ws = (w', r))"
proof -
  let ?loop = "batches_loop (run_batch (complete_google gt) progress_data_google) (nat batch_size)
                 scheds xs (w, [])"
  obtain w' r where l: "?loop = (w', r)" by (cases ?loop)
  have nb: "0 < nat batch_size" using bs by simp
  have pw: "process_words_google gt scheds xs batch_size w = Inr (w', r)"
    using bs l by (simp add: process_words_google_def)
  from loop_checkpoints[where complete="complete_google gt", OF complete_google_proc nb l]
  obtain ws where
    1: "length ws = total_batches (nat batch_size) xs" and
    2: "trace w' = trace w @ concat (map (\<lambda>n.
           map (\<lambda>(word, flags). Dispatch word flags)
             (filter (\<lambda>(word, flags). word \<notin> set (processed_words (bld w))
                                              \<union> fst ` set (take (n * nat batch_size) xs))
                (batch_at (nat batch_size) n xs))
           @ [SaveProgress (progress_data_google (bld (fst (ws ! n))) (length (snd (ws ! n))))])
         [0..<length ws])" and
    3: "\<forall>n<length ws.
           batches_loop (run_batch (complete_google gt) progress_data_google) (nat batch_size) scheds
             (take (Suc n * nat batch_size) xs) (w, []) = ws ! n
           \<and> disk (fst (ws ! n)) =
               Snapshot (progress_data_google (bld (fst (ws ! n))) (length (snd (ws ! n))))" and
    4: "xs \<noteq> [] \<longrightarrow> last ws = (w', r)"
    by (elim exE conjE)
  have 5: "\<forall>n<length ws.
          process_words_google gt scheds (take (Suc n * nat batch_size) xs) batch_size w
               = Inr (ws ! n)
          \<and> disk (fst (ws ! n)) =
               Snapshot \<lparr>f_translations = Some (translations_dict (bld (fst (ws ! n)))),
                         f_examples = None,
                         f_processed_words = Some (processed_words (bld (fst (ws ! n)))),
                         f_problematic_words = Some (problematic_words (bld (fst (ws ! n)))),
                         f_results_count = Some (length (snd (ws ! n)))\<rparr>
          \<and> set (processed_words (bld (fst (ws ! n)))) =
               set (processed_words (bld w)) \<union> fst ` set (take (Suc n * nat batch_size) xs)
          \<and> fst ` set (translations_dict (bld (fst (ws ! n)))) =
               fst ` set (translations_dict (bld w))
               \<union> {k \<in> fst ` set (take (Suc n * nat batch_size) xs) - set (processed_words (bld w)).
                      ok_google gt k}
          \<and> set (problematic_words (bld (fst (ws ! n)))) =
               (set (problematic_words (bld w))
                  - {k \<in> fst ` set (take (Suc n * nat batch_size) xs) - set (processed_words (bld w)).
                         ok_google gt k})
               \<union> {k \<in> fst ` set (take (Suc n * nat batch_size) xs) - set (processed_words (bld w)).
                      \<not> ok_google gt k}
          \<and> fst ` set (snd (ws ! n)) =
               {k \<in> fst ` set (take (Suc n * nat batch_size) xs) - set (processed_words (bld w)).
                    ok_google gt k}"
  proof (intro allI impI)
    fix n assume n: "n < length ws"
    from 3 n have lp: "batches_loop (run_batch (complete_google gt) progress_data_google) (nat batch_size) scheds
             (take (Suc n * nat batch_size) xs) (w, []) = ws ! n"
      and dk: "disk (fst (ws ! n)) =
               Snapshot (progress_data_google (bld (fst (ws ! n))) (length (snd (ws ! n))))"
      by blast+
    have a: "process_words_google gt scheds (take (Suc n * nat batch_size) xs) batch_size w
        = Inr (ws ! n)"
      using bs lp by (simp add: process_words_google_def)
    from process_words_google_summary[OF bs, of gt scheds "take (Suc n * nat batch_size) xs" w]
    obtain wn rn where
      e: "process_words_google gt scheds (take (Suc n * nat batch_size) xs) batch_size w
            = Inr (wn, rn)" and
      c: "set (processed_words (bld (wn))) =
           set (processed_words (bld w)) \<union> fst ` set (take (Suc n * nat batch_size) xs)" and
      d: "fst ` set (translations_dict (bld (wn))) =
           fst ` set (translations_dict (bld w))
           \<union> {k \<in> fst ` set (take (Suc n * nat batch_size) xs) - set (processed_words (bld w)).
                  ok_google gt k}" and
      f: "set (problematic_words (bld (wn))) =
           (set (problematic_words (bld w))
              - {k \<in> fst ` set (take (Suc n * nat batch_size) xs) - set (processed_words (bld w)).
                     ok_google gt k})
           \<union> {k \<in> fst ` set (take (Suc n * nat batch_size) xs) - set (processed_words (bld w)).
                  \<not> ok_google gt k}" and
      g: "fst ` set (rn) =
           {k \<in> fst ` set (take (Suc n * nat batch_size) xs) - set (processed_words (bld w)).
                ok_google gt k}"
      by (elim exE conjE)
    from a e have wn: "wn = fst (ws ! n)" and rn: "rn = snd (ws ! n)" by simp_all
    show "process_words_google gt scheds (take (Suc n * nat batch_size) xs) batch_size w
               = Inr (ws ! n)
          \<and> disk (fst (ws ! n)) =
               Snapshot \<lparr>f_translations = Some (translations_dict (bld (fst (ws ! n)))),
                         f_examples = None,
                         f_processed_words = Some (processed_words (bld (fst (ws ! n)))),
                         f_problematic_words = Some (problematic_words (bld (fst (ws ! n)))),
                         f_results_count = Some (length (snd (ws ! n)))\<rparr>
          \<and> set (processed_words (bld (fst (ws ! n)))) =
               set (processed_words (bld w)) \<union> fst ` set (take (Suc n * nat batch_size) xs)
          \<and> fst ` set (translations_dict (bld (fst (ws ! n)))) =
               fst ` set (translations_dict (bld w))
               \<union> {k \<in> fst ` set (take (Suc n * nat batch_size) xs) - set (processed_words (bld w)).
                      ok_google gt k}
          \<and> set (problematic_words (bld (fst (ws ! n)))) =
               (set (problematic_words (bld w))
                  - {k \<in> fst ` set (take (Suc n * nat batch_size) xs) - set (processed_words (bld w)).
                         ok_google gt k})
               \<union> {k \<in> fst ` set (take (Suc n * nat batch_size) xs) - set (processed_words (bld w)).
                      \<not> ok_google gt k}
          \<and> fst ` set (snd (ws ! n)) =
               {k \<in> fst ` set (take (Suc n * nat batch_size) xs) - set (processed_words (bld w)).
                    ok_google gt k}"
      by (intro conjI a dk[unfolded progress_data_google_def] c[unfolded wn] d[unfolded wn]
            f[unfolded wn] g[unfolded rn])
  qed
  show ?thesis
    by (intro exI[of _ w'] exI[of _ r] exI[of _ ws] conjI pw 1
          2[unfolded progress_data_google_def] 5 4)
qed

lemma checkpoints_glosbe:
  assumes bs: "0 < batch_size"
  shows "\<exists>v' q vs. process_words_glosbe ht hs scheds xs batch_size v = Inr (v', q)
     \<and> length vs = total_batches (nat batch_size) xs
     \<and> trace v' = trace v @ concat (map (\<lambda>n.
              map (\<lambda>(word, flags). Dispatch word flags)
                (filter (\<lambda>(word, flags). word \<notin> set (processed_words (bld v))
                                                 \<union> fst ` set (take (n * nat batch_size) xs))
                   (batch_at (nat batch_size) n xs))
              @ [SaveProgress \<lparr>f_translations = Some (translations_dict (bld (fst (vs ! n)))),
                               f_examples = Some (examples (bld (fst (vs ! n)))),
                               f_processed_words = Some (processed_words (bld (fst (vs ! n)))),
                               f_problematic_words = Some (problematic_words (bld (fst (vs ! n)))),
                               f_results_count = Some (length (snd (vs ! n)))\<rparr>]) [0..<length vs])
     \<and> (\<forall>n<length vs.
            process_words_glosbe ht hs scheds (take (Suc n * nat batch_size) xs) batch_size v
                 = Inr (vs ! n)
            \<and> disk (fst (vs ! n)) =
                 Snapshot \<lparr>f_translations = Some (translations_dict (bld (fst (vs ! n)))),
                           f_examples = Some (examples (bld (fst (vs ! n)))),
                           f_processed_words = Some (processed_words (bld (fst (vs ! n)))),
                           f_problematic_words = Some (problematic_words (bld (fst (vs ! n)))),
                           f_results_count = Some (length (snd (vs ! n)))\<rparr>
            \<and> set (processed_words (bld (fst (vs ! n)))) =
                 set (processed_words (bld v)) \<union> fst ` set (take (Suc n * nat batch_size) xs)
            \<and> fst ` set (translations_dict (bld (fst (vs ! n)))) =
                 fst ` set (translations_dict (bld v))
                 \<union> {k \<in> fst ` set (take (Suc n * nat batch_size) xs) - set (processed_words (bld v)).
                        ok_glosbe ht hs k}
            \<and> set (problematic_words (bld (fst (vs ! n)))) =
                 set (problematic_words (bld v))
                 \<union> {k \<in> fst ` set (take (Suc n * nat batch_size) xs) - set (processed_words (bld v)).
                        \<not> ok_glosbe ht hs k}
            \<and> fst ` set (snd (vs ! n)) =
                 {k \<in> fst ` set (take (Suc n * nat batch_size) xs) - set (processed_words (bld v)).
                      ok_glosbe ht hs k})
     \<and> (xs \<noteq> [] \<longrightarrow> last vs = (v', q))"
proof -
  let ?loop = "batches_loop (run_batch (complete_glosbe ht hs) progress_data_glosbe) (nat batch_size)
                 scheds xs (v, [])"
  obtain v' q where l: "?loop = (v', q)" by (cases ?loop)
  have nb: "0 < nat batch_size" using bs by simp
  have pw: "process_words_glosbe ht hs scheds xs batch_size v = Inr (v', q)"
    using bs l by (simp add: process_words_glosbe_def)
  from loop_checkpoints[where complete="complete_glosbe ht hs", OF complete_glosbe_proc nb l]
  obtain vs where
    1: "length vs = total_batches (nat batch_size) xs" and
    2: "trace v' = trace v @ concat (map (\<lambda>n.
           map (\<lambda>(word, flags). Dispatch word flags)
             (filter (\<lambda>(word, flags). word \<notin> set (processed_words (bld v))
                                              \<union> fst ` set (take (n * nat batch_size) xs))
                (batch_at (nat batch_size) n xs))
           @ [SaveProgress (progress_data_glosbe (bld (fst (vs ! n))) (length (snd (vs ! n))))])
         [0..<length vs])" and
    3: "\<forall>n<length vs.
           batches_loop (run_batch (complete_glosbe ht hs) progress_data_glosbe) (nat batch_size) scheds
             (take (Suc n * nat batch_size) xs) (v, []) = vs ! n
           \<and> disk (fst (vs ! n)) =
               Snapshot (progress_data_glosbe (bld (fst (vs ! n))) (length (snd (vs ! n))))" and
    4: "xs \<noteq> [] \<longrightarrow> last vs = (v', q)"
    by (elim exE conjE)
  have 5: "\<forall>n<length vs.
          process_words_glosbe ht hs scheds (take (Suc n * nat batch_size) xs) batch_size v
               = Inr (vs ! n)
          \<and> disk (fst (vs ! n)) =
               Snapshot \<lparr>f_translations = Some (translations_dict (bld (fst (vs ! n)))),
                         f_examples = Some (examples (bld (fst (vs ! n)))),
                         f_processed_words = Some (processed_words (bld (fst (vs ! n)))),
                         f_problematic_words = Some (problematic_words (bld (fst (vs ! n)))),
                         f_results_count = Some (length (snd (vs ! n)))\<rparr>
          \<and> set (processed_words (bld (fst (vs ! n)))) =
               set (processed_words (bld v)) \<union> fst ` set (take (Suc n * nat batch_size) xs)
          \<and> fst ` set (translations_dict (bld (fst (vs ! n)))) =
               fst ` set (translations_dict (bld v))
               \<union> {k \<in> fst ` set (take (Suc n * nat batch_size) xs) - set (processed_words (bld v)).
                      ok_glosbe ht hs k}
          \<and> set (problematic_words (bld (fst (vs ! n)))) =
               set (problematic_words (bld v))
               \<union> {k \<in> fst ` set (take (Suc n * nat batch_size) xs) - set (processed_words (bld v)).
                      \<not> ok_glosbe ht hs k}
          \<and> fst ` set (snd (vs ! n)) =
               {k \<in> fst ` set (take (Suc n * nat batch_size) xs) - set (processed_words (bld v)).
                    ok_glosbe ht hs k}"
  proof (intro allI impI)
    fix n assume n: "n < length vs"
    from 3 n have lp: "batches_loop (run_batch (complete_glosbe ht hs) progress_data_glosbe) (nat batch_size) scheds
             (take (Suc n * nat batch_size) xs) (v, []) = vs ! n"
      and dk: "disk (fst (vs ! n)) =
               Snapshot (progress_data_glosbe (bld (fst (vs ! n))) (length (snd (vs ! n))))"
      by blast+
    have a: "process_words_glosbe ht hs scheds (take (Suc n * nat batch_size) xs) batch_size v
        = Inr (vs ! n)"
      using bs lp by (simp add: process_words_glosbe_def)
    from process_words_glosbe_summary[OF bs, of ht hs scheds "take (Suc n * nat batch_size) xs" v]
    obtain wn rn where
      e: "process_words_glosbe ht hs scheds (take (Suc n * nat batch_size) xs) batch_size v
            = Inr (wn, rn)" and
      c: "set (processed_words (bld (wn))) =
           set (processed_words (bld v)) \<union> fst ` set (take (Suc n * nat batch_size) xs)" and
      d: "fst ` set (translations_dict (bld (wn))) =
           fst ` set (translations_dict (bld v))
           \<union> {k \<in> fst ` set (take (Suc n * nat batch_size) xs) - set (processed_words (bld v)).
                  ok_glosbe ht hs k}" and
      f: "set (problematic_words (bld (wn))) =
           set (problematic_words (bld v))
           \<union> {k \<in> fst ` set (take (Suc n * nat batch_size) xs) - set (processed_words (bld v)).
                  \<not> ok_glosbe ht hs k}" and
      g: "fst ` set (rn) =
           {k \<in> fst ` set (take (Suc n * nat batch_size) xs) - set (processed_words (bld v)).
                ok_glosbe ht hs k}"
      by (elim exE conjE)
    from a e have wn: "wn = fst (vs ! n)" and rn: "rn = snd (vs ! n)" by simp_all
    show "process_words_glosbe ht hs scheds (take (Suc n * nat batch_size) xs) batch_size v
               = Inr (vs ! n)
          \<and> disk (fst (vs ! n)) =
               Snapshot \<lparr>f_translations = Some (translations_dict (bld (fst (vs ! n)))),
                         f_examples = Some (examples (bld (fst (vs ! n)))),
                         f_processed_words = Some (processed_words (bld (fst (vs ! n)))),
                         f_problematic_words = Some (problematic_words (bld (fst (vs ! n)))),
                         f_results_count = Some (length (snd (vs ! n)))\<rparr>
          \<and> set (processed_words (bld (fst (vs ! n)))) =
               set (processed_words (bld v)) \<union> fst ` set (take (Suc n * nat batch_size) xs)
          \<and> fst ` set (translations_dict (bld (fst (vs ! n)))) =
               fst ` set (translations_dict (bld v))
               \<union> {k \<in> fst ` set (take (Suc n * nat batch_size) xs) - set (processed_words (bld v)).
                      ok_glosbe ht hs k}
          \<and> set (problematic_words (bld (fst (vs ! n)))) =
               set (problematic_words (bld v))
               \<union> {k \<in> fst ` set (take (Suc n * nat batch_size) xs) - set (processed_words (bld v)).
                      \<not> ok_glosbe ht hs k}
          \<and> fst ` set (snd (vs ! n)) =
               {k \<in> fst ` set (take (Suc n * nat batch_size) xs) - set (processed_words (bld v)).
                    ok_glosbe ht hs k}"
      by (intro conjI a dk[unfolded progress_data_glosbe_def] c[unfolded wn] d[unfolded wn]
            f[unfolded wn] g[unfolded rn])
  qed
  show ?thesis
    by (intro exI[of _ v'] exI[of _ q] exI[of _ vs] conjI pw 1
          2[unfolded progress_data_glosbe_def] 5 4)
qed

text \<open>
  C8. For a positive batch size \<open>process_words\<close> returns, and its trace is, batch after
  batch, the dispatches of the batch followed by one \<open>save_progress\<close>: there are
  \<open>total_batches\<close> checkpoints, and the words dispatched in batch \<open>n\<close> are the words of that
  batch not processed before it, so no word of batch \<open>n + 1\<close> is dispatched before the
  checkpoint of batch \<open>n\<close>. The record saved after batch \<open>n\<close> is the whole state at that
  point, which is the state \<open>process_words\<close> reaches on the batches up to \<open>n\<close> alone: its
  translations, its examples in Glosbe's program, its processed and problematic words
  and the number of results; and it is what the progress file holds from then until the
  next checkpoint. In that state the processed words are those processed at the start
  and the words of the batches up to \<open>n\<close>; the translated words are those translated at
  the start and the words dispatched so far that translate; the problematic words are
  those of the start, in Google's program less the dispatched words that translate, and
  the dispatched words that do not translate. The last checkpoint is the final state.
\<close>

theorem checkpoint_after_every_batch:
  "(0 < batch_size \<longrightarrow>
     (\<exists>w' r ws. process_words_google gt scheds xs batch_size w = Inr (w', r)
       \<and> length ws = total_batches (nat batch_size) xs
       \<and> trace w' = trace w @ concat (map (\<lambda>n.
                map (\<lambda>(word, flags). Dispatch word flags)
                  (filter (\<lambda>(word, flags). word \<notin> set (processed_words (bld w))
                                                   \<union> fst ` set (take (n * nat batch_size) xs))
                     (batch_at (nat batch_size) n xs))
                @ [SaveProgress \<lparr>f_translations = Some (translations_dict (bld (fst (ws ! n)))),
                                 f_examples = None,
                                 f_processed_words = Some (processed_words (bld (fst (ws ! n)))),
                                 f_problematic_words = Some (problematic_words (bld (fst (ws ! n)))),
                                 f_results_count = Some (length (snd (ws ! n)))\<rparr>]) [0..<length ws])
       \<and> (\<forall>n<length ws.
              process_words_google gt scheds (take (Suc n * nat batch_size) xs) batch_size w
                   = Inr (ws ! n)
              \<and> disk (fst (ws ! n)) =
                   Snapshot \<lparr>f_translations = Some (translations_dict (bld (fst (ws ! n)))),
                             f_examples = None,
                             f_processed_words = Some (processed_words (bld (fst (ws ! n)))),
                             f_problematic_words = Some (problematic_words (bld (fst (ws ! n)))),
                             f_results_count = Some (length (snd (ws ! n)))\<rparr>
              \<and> set (processed_words (bld (fst (ws ! n)))) =
                   set (processed_words (bld w)) \<union> fst ` set (take (Suc n * nat batch_size) xs)
              \<and> fst ` set (translations_dict (bld (fst (ws ! n)))) =
                   fst ` set (translations_dict (bld w))
                   \<union> {k \<in> fst ` set (take (Suc n * nat batch_size) xs) - set (processed_words (bld w)).
                          ok_google gt k}
              \<and> set (problematic_words (bld (fst (ws ! n)))) =
                   (set (problematic_words (bld w))
                      - {k \<in> fst ` set (take (Suc n * nat batch_size) xs) - set (processed_words (bld w)).
                             ok_google gt k})
                   \<union> {k \<in> fst ` set (take (Suc n * nat batch_size) xs) - set (processed_words (bld w)).
                          \<not> ok_google gt k}
              \<and> fst ` set (snd (ws ! n)) =
                   {k \<in> fst ` set (take (Suc n * nat batch_size) xs) - set (processed_words (bld w)).
                        ok_google gt k})
       \<and> (xs \<noteq> [] \<longrightarrow> last ws = (w', r))))
   \<and> (0 < batch_size \<longrightarrow>
     (\<exists>v' q vs. process_words_glosbe ht hs scheds xs batch_size v = Inr (v', q)
       \<and> length vs = total_batches (nat batch_size) xs
       \<and> trace v' = trace v @ concat (map (\<lambda>n.
                map (\<lambda>(word, flags). Dispatch word flags)
                  (filter (\<lambda>(word, flags). word \<notin> set (processed_words (bld v))
                                                   \<union> fst ` set (take (n * nat batch_size) xs))
                     (batch_at (nat batch_size) n xs))
                @ [SaveProgress \<lparr>f_translations = Some (translations_dict (bld (fst (vs ! n)))),
                                 f_examples = Some (examples (bld (fst (vs ! n)))),
                                 f_processed_words = Some (processed_words (bld (fst (vs ! n)))),
                                 f_problematic_words = Some (problematic_words (bld (fst (vs ! n)))),
                                 f_results_count = Some (length (snd (vs ! n)))\<rparr>]) [0..<length vs])
       \<and> (\<forall>n<length vs.
              process_words_glosbe ht hs scheds (take (Suc n * nat batch_size) xs) batch_size v
                   = Inr (vs ! n)
              \<and> disk (fst (vs ! n)) =
                   Snapshot \<lparr>f_translations = Some (translations_dict (bld (fst (vs ! n)))),
                             f_examples = Some (examples (bld (fst (vs ! n)))),
                             f_processed_words = Some (processed_words (bld (fst (vs ! n)))),
                             f_problematic_words = Some (problematic_words (bld (fst (vs ! n)))),
                             f_results_count = Some (length (snd (vs ! n)))\<rparr>
              \<and> set (processed_words (bld (fst (vs ! n)))) =
                   set (processed_words (bld v)) \<union> fst ` set (take (Suc n * nat batch_size) xs)
              \<and> fst ` set (translations_dict (bld (fst (vs ! n)))) =
                   fst ` set (translations_dict (bld v))
                   \<union> {k \<in> fst ` set (take (Suc n * nat batch_size) xs) - set (processed_words (bld v)).
                          ok_glosbe ht hs k}
              \<and> set (problematic_words (bld (fst (vs ! n)))) =
                   set (problematic_words (bld v))
                   \<union> {k \<in> fst ` set (take (Suc n * nat batch_size) xs) - set (processed_words (bld v)).
                          \<not> ok_glosbe ht hs k}
              \<and> fst ` set (snd (vs ! n)) =
                   {k \<in> fst ` set (take (Suc n * nat batch_size) xs) - set (processed_words (bld v)).
                        ok_glosbe ht hs k})
       \<and> (xs \<noteq> [] \<longrightarrow> last vs = (v', q))))"
  using checkpoints_google[of batch_size gt scheds xs w]
        checkpoints_glosbe[of batch_size ht hs scheds xs v]
  by (intro conjI impI) assumption+

theorem checkpoint_after_every_batch_witness:
  "(0::int) < 2
   \<and> (\<exists>w' r ws. process_words_google stub_all []
                   [(py ''a'', []), (py ''b'', []), (py ''c'', [])] 2 fresh_google = Inr (w', r)
        \<and> length ws = 2
        \<and> last ws = (w', r)
        \<and> disk (fst (ws ! 0)) =
             Snapshot \<lparr>f_translations = Some [(py ''a'', py ''ok''), (py ''b'', py ''ok'')],
                       f_examples = None,
                       f_processed_words = Some [py ''a'', py ''b''],
                       f_problematic_words = Some [],
                       f_results_count = Some 2\<rparr>)
   \<and> (\<exists>v' q vs. process_words_glosbe stub_all no_phrases []
                   [(py ''a'', []), (py ''b'', []), (py ''c'', [])] 2 fresh_glosbe = Inr (v', q)
        \<and> length vs = 2
        \<and> last vs = (v', q)
        \<and> disk (fst (vs ! 0)) =
             Snapshot \<lparr>f_translations = Some [(py ''a'', py ''ok''), (py ''b'', py ''ok'')],
                       f_examples = Some [(py ''a'', []), (py ''b'', [])],
                       f_processed_words = Some [py ''a'', py ''b''],
                       f_problematic_words = Some [],
                       f_results_count = Some 2\<rparr>)"
proof -
  let ?xs = "[(py ''a'', []), (py ''b'', []), (py ''c'', [])] :: (pystr \<times> pystr) list"
  have h: "(0::int) < 2" by simp
  have n: "total_batches (nat 2) ?xs = 2" by (simp add: total_batches_def)
  have ne: "?xs \<noteq> []" by simp
  note t = checkpoint_after_every_batch[of 2 stub_all "[]" ?xs fresh_google stub_all no_phrases fresh_glosbe]
  from t[THEN conjunct1, THEN mp, OF h] obtain w' r ws where
    g1: "process_words_google stub_all [] ?xs 2 fresh_google = Inr (w', r)" and
    g2: "length ws = total_batches (nat 2) ?xs" and
    g3: "\<forall>n<length ws.
           process_words_google stub_all [] (take (Suc n * nat 2) ?xs) 2 fresh_google = Inr (ws ! n)
           \<and> disk (fst (ws ! n)) =
               Snapshot \<lparr>f_translations = Some (translations_dict (bld (fst (ws ! n)))),
                         f_examples = None,
                         f_processed_words = Some (processed_words (bld (fst (ws ! n)))),
                         f_problematic_words = Some (problematic_words (bld (fst (ws ! n)))),
                         f_results_count = Some (length (snd (ws ! n)))\<rparr>" and
    g4: "?xs \<noteq> [] \<longrightarrow> last ws = (w', r)"
    by (elim exE conjE) blast
  have g5: "0 < length ws" using g2 n by simp
  from g3 g5 have
    g6: "process_words_google stub_all [] (take (Suc 0 * nat 2) ?xs) 2 fresh_google = Inr (ws ! 0)" and
    g7: "disk (fst (ws ! 0)) =
               Snapshot \<lparr>f_translations = Some (translations_dict (bld (fst (ws ! 0)))),
                         f_examples = None,
                         f_processed_words = Some (processed_words (bld (fst (ws ! 0)))),
                         f_problematic_words = Some (problematic_words (bld (fst (ws ! 0)))),
                         f_results_count = Some (length (snd (ws ! 0)))\<rparr>"
    by blast+
  have g8: "disk (fst (ws ! 0)) =
             Snapshot \<lparr>f_translations = Some [(py ''a'', py ''ok''), (py ''b'', py ''ok'')],
                       f_examples = None,
                       f_processed_words = Some [py ''a'', py ''b''],
                       f_problematic_words = Some [],
                       f_results_count = Some 2\<rparr>"
    using g6[symmetric] g7 by (simp add: eval_simps)
  have g: "\<exists>w' r ws. process_words_google stub_all [] ?xs 2 fresh_google = Inr (w', r)
        \<and> length ws = 2 \<and> last ws = (w', r)
        \<and> disk (fst (ws ! 0)) =
             Snapshot \<lparr>f_translations = Some [(py ''a'', py ''ok''), (py ''b'', py ''ok'')],
                       f_examples = None,
                       f_processed_words = Some [py ''a'', py ''b''],
                       f_problematic_words = Some [],
                       f_results_count = Some 2\<rparr>"
    by (intro exI[of _ w'] exI[of _ r] exI[of _ ws] conjI g1 g2[unfolded n] g4[rule_format, OF ne] g8)
  from t[THEN conjunct2, THEN mp, OF h] obtain v' q vs where
    l1: "process_words_glosbe stub_all no_phrases [] ?xs 2 fresh_glosbe = Inr (v', q)" and
    l2: "length vs = total_batches (nat 2) ?xs" and
    l3: "\<forall>n<length vs.
           process_words_glosbe stub_all no_phrases [] (take (Suc n * nat 2) ?xs) 2 fresh_glosbe = Inr (vs ! n)
           \<and> disk (fst (vs ! n)) =
               Snapshot \<lparr>f_translations = Some (translations_dict (bld (fst (vs ! n)))),
                         f_examples = Some (examples (bld (fst (vs ! n)))),
                         f_processed_words = Some (processed_words (bld (fst (vs ! n)))),
                         f_problematic_words = Some (problematic_words (bld (fst (vs ! n)))),
                         f_results_count = Some (length (snd (vs ! n)))\<rparr>" and
    l4: "?xs \<noteq> [] \<longrightarrow> last vs = (v', q)"
    by (elim exE conjE) blast
  have l5: "0 < length vs" using l2 n by simp
  from l3 l5 have
    l6: "process_words_glosbe stub_all no_phrases [] (take (Suc 0 * nat 2) ?xs) 2 fresh_glosbe = Inr (vs ! 0)" and
    l7: "disk (fst (vs ! 0)) =
               Snapshot \<lparr>f_translations = Some (translations_dict (bld (fst (vs ! 0)))),
                         f_examples = Some (examples (bld (fst (vs ! 0)))),
                         f_processed_words = Some (processed_words (bld (fst (vs ! 0)))),
                         f_problematic_words = Some (problematic_words (bld (fst (vs ! 0)))),
                         f_results_count = Some (length (snd (vs ! 0)))\<rparr>"
    by blast+
  have l8: "disk (fst (vs ! 0)) =
             Snapshot \<lparr>f_translations = Some [(py ''a'', py ''ok''), (py ''b'', py ''ok'')],
                       f_examples = Some [(py ''a'', []), (py ''b'', [])],
                       f_processed_words = Some [py ''a'', py ''b''],
                       f_problematic_words = Some [],
                       f_results_count = Some 2\<rparr>"
    using l6[symmetric] l7 by (simp add: eval_simps)
  have l: "\<exists>v' q vs. process_words_glosbe stub_all no_phrases [] ?xs 2 fresh_glosbe = Inr (v', q)
        \<and> length vs = 2 \<and> last vs = (v', q)
        \<and> disk (fst (vs ! 0)) =
             Snapshot \<lparr>f_translations = Some [(py ''a'', py ''ok''), (py ''b'', py ''ok'')],
                       f_examples = Some [(py ''a'', []), (py ''b'', [])],
                       f_processed_words = Some [py ''a'', py ''b''],
                       f_problematic_words = Some [],
                       f_results_count = Some 2\<rparr>"
    by (intro exI[of _ v'] exI[of _ q] exI[of _ vs] conjI l1 l2[unfolded n] l4[rule_format, OF ne] l8)
  show ?thesis by (intro conjI h g l)
qed

end
